(* ===== verification/Prelude.thy ===== *)
theory Prelude
  imports Main "HOL-Library.Word" "HOL-Library.Sublist" "HOL-Library.Finite_Map"
begin

text \<open>
  Shared vocabulary of the development: bytes and Go strings, the part of the Go packages
  \<open>strings\<close>, \<open>strconv\<close> and \<open>fmt\<close> that the program calls (numbers in base 8, 10 and 16,
  prefixes, substrings, splitting and joining), and the lemmas every component uses.

  A Go \<open>string\<close> is a sequence of bytes, and so is an Isabelle \<^typ>\<open>string\<close>: a
  \<^typ>\<open>char\<close> is one byte. A Go \<open>byte\<close> of an array is an \<open>8 word\<close>.
\<close>

unbundle bit_operations_syntax

named_theorems go_simps \<open>evaluation rules of the modelled library functions\<close>

type_synonym byte = "8 word"
type_synonym u16 = "16 word"
type_synonym u32 = "32 word"
type_synonym u64 = "64 word"

section \<open>Bytes and strings\<close>

definition byte_of_char :: "char \<Rightarrow> byte" where
  "byte_of_char c = of_nat (of_char c)"

definition char_of_byte :: "byte \<Rightarrow> char" where
  "char_of_byte b = char_of (unat b)"

definition string_of_bytes :: "byte list \<Rightarrow> string" where
  "string_of_bytes bs = map char_of_byte bs"

definition bytes_of_string :: "string \<Rightarrow> byte list" where
  "bytes_of_string s = map byte_of_char s"

lemma of_char_less_256 [simp]: "(of_char c :: nat) < 256"
  by (metis of_char_mod_256 mod_less_divisor zero_less_numeral)

lemma char_of_byte_of_char [simp]: "char_of_byte (byte_of_char c) = c"
proof -
  have "take_bit 8 (of_char c :: nat) = of_char c"
    by (rule take_bit_nat_eq_self) simp
  then show ?thesis
    by (simp add: char_of_byte_def byte_of_char_def unsigned_of_nat)
qed

lemma byte_of_char_of_byte [simp]: "byte_of_char (char_of_byte b) = b"
proof -
  have "unat b < 256" using unsigned_less [of b, where ?'a = nat] by simp
  then show ?thesis
    by (simp add: char_of_byte_def byte_of_char_def of_char_of)
qed

lemma char_of_byte_inject [simp]: "char_of_byte a = char_of_byte b \<longleftrightarrow> a = b"
  by (metis byte_of_char_of_byte)

lemma byte_of_char_inject [simp]: "byte_of_char a = byte_of_char b \<longleftrightarrow> a = b"
  by (metis char_of_byte_of_char)

lemma string_of_bytes_of_string [simp]: "string_of_bytes (bytes_of_string s) = s"
  by (simp add: string_of_bytes_def bytes_of_string_def comp_def)

lemma bytes_of_string_of_bytes [simp]: "bytes_of_string (string_of_bytes b) = b"
  by (simp add: string_of_bytes_def bytes_of_string_def comp_def)

lemma length_string_of_bytes [simp]: "length (string_of_bytes b) = length b"
  by (simp add: string_of_bytes_def)

lemma length_bytes_of_string [simp]: "length (bytes_of_string s) = length s"
  by (simp add: bytes_of_string_def)

lemma char_of_byte_zero: "char_of_byte b = CHR 0x00 \<longleftrightarrow> b = 0"
proof -
  have "char_of_byte 0 = CHR 0x00" by (simp add: char_of_byte_def char_of_def)
  then show ?thesis by (metis char_of_byte_inject)
qed

section \<open>Numbers as text: \<open>%d\<close>, \<open>%o\<close>, \<open>%x\<close>\<close>

definition digit_char :: "nat \<Rightarrow> char" where
  "digit_char d = (if d < 10 then char_of (48 + d) else char_of (87 + d))"

definition digit_val :: "char \<Rightarrow> nat" where
  "digit_val c = (let n = of_char c in if n < 58 then n - 48 else n - 87)"

text \<open>\<open>strconv.FormatUint(n, b)\<close> for a base between 2 and 16: digits, most significant first.\<close>

fun itoa :: "nat \<Rightarrow> nat \<Rightarrow> string" where
  "itoa b n = (if b < 2 \<or> n < b then [digit_char n] else itoa b (n div b) @ [digit_char (n mod b)])"

declare itoa.simps [simp del]
lemmas itoa_unfold [go_simps] = itoa.simps

definition digits_val :: "nat \<Rightarrow> string \<Rightarrow> nat" where
  "digits_val b s = foldl (\<lambda>acc c. acc * b + digit_val c) 0 s"

lemma digit_val_digit_char [simp]: "d < 16 \<Longrightarrow> digit_val (digit_char d) = d"
  by (auto simp: digit_val_def digit_char_def of_char_of)

lemma digits_val_itoa: "2 \<le> b \<Longrightarrow> b \<le> 16 \<Longrightarrow> digits_val b (itoa b n) = n"
proof (induction b n rule: itoa.induct)
  case (1 b n)
  show ?case
  proof (cases "n < b")
    case True
    with "1.prems" show ?thesis by (subst itoa.simps) (simp add: digits_val_def)
  next
    case False
    with 1 have "digits_val b (itoa b (n div b)) = n div b" by simp
    moreover have "n mod b < 16"
      using "1.prems" by (meson mod_less_divisor order_less_le_trans zero_less_numeral le_trans linorder_not_less not_numeral_le_zero leI)
    ultimately show ?thesis
      using False "1.prems" by (subst itoa.simps) (simp add: digits_val_def)
  qed
qed

lemma itoa_inject: "2 \<le> b \<Longrightarrow> b \<le> 16 \<Longrightarrow> itoa b m = itoa b n \<longleftrightarrow> m = n"
  by (metis digits_val_itoa)

lemma itoa_ne [simp]: "itoa b n \<noteq> []"
  by (subst itoa.simps) simp

definition dec_str :: "nat \<Rightarrow> string" where
  "dec_str n = itoa 10 n"

definition oct_str :: "nat \<Rightarrow> string" where
  "oct_str n = itoa 8 n"

definition hex_str :: "nat \<Rightarrow> string" where
  "hex_str n = itoa 16 n"

lemma dec_str_inject [simp]: "dec_str m = dec_str n \<longleftrightarrow> m = n"
  by (simp add: dec_str_def itoa_inject)

lemma oct_str_inject [simp]: "oct_str m = oct_str n \<longleftrightarrow> m = n"
  by (simp add: oct_str_def itoa_inject)

lemma hex_str_inject [simp]: "hex_str m = hex_str n \<longleftrightarrow> m = n"
  by (simp add: hex_str_def itoa_inject)

section \<open>The contract of a keyed store\<close>

text \<open>
  A store in which the last write for a key wins and nothing else removes entries: what the
  process tree promises its clients. The client facts, about a whole run of writes, are proved
  here once.
\<close>

locale keyed_store =
  fixes get :: "'s \<Rightarrow> 'k \<Rightarrow> 'v option" and put :: "'e \<Rightarrow> 's \<Rightarrow> 's"
    and key :: "'e \<Rightarrow> 'k" and val :: "'e \<Rightarrow> 'v" and empty :: 's
  assumes get_empty: "get empty k = None"
    and get_put: "get (put e s) k = (if k = key e then Some (val e) else get s k)"
begin

lemma get_run:
  "get (fold put es s) k =
     (case find (\<lambda>e. key e = k) (rev es) of Some e \<Rightarrow> Some (val e) | None \<Rightarrow> get s k)"
proof (induction es rule: rev_induct)
  case Nil
  then show ?case by simp
next
  case (snoc e es)
  then show ?case by (auto simp: get_put)
qed

lemma get_run_empty:
  "get (fold put es empty) k = map_option val (find (\<lambda>e. key e = k) (rev es))"
  by (simp add: get_run get_empty split: option.split)

lemma run_tracked: "get (fold put es empty) k \<noteq> None \<longleftrightarrow> k \<in> key ` set es"
  by (auto simp: get_run_empty find_None_iff)

lemma run_keeps: "get s k \<noteq> None \<Longrightarrow> get (fold put es s) k \<noteq> None"
  by (auto simp: get_run split: option.split)

end

end
