(* ===== verification/GoStrings.thy ===== *)
theory GoStrings
  imports Prelude
begin

text \<open>
  The functions of the Go package \<open>strings\<close> that the program calls, on byte strings, and the
  padding of \<open>fmt\<close>'s \<open>%-Nd\<close> and \<open>%0No\<close>. Each is proved equal to (or inverse of) its
  mathematical description: prefix, suffix and sublist of \<open>HOL-Library.Sublist\<close>, and
  \<open>Join\<close> undoing \<open>Split\<close>.
\<close>

section \<open>Prefixes, suffixes, substrings\<close>

definition HasPrefix :: "string \<Rightarrow> string \<Rightarrow> bool" where
  "HasPrefix s p \<longleftrightarrow> length p \<le> length s \<and> take (length p) s = p"

definition HasSuffix :: "string \<Rightarrow> string \<Rightarrow> bool" where
  "HasSuffix s p \<longleftrightarrow> length p \<le> length s \<and> drop (length s - length p) s = p"

fun Contains :: "string \<Rightarrow> string \<Rightarrow> bool" where
  "Contains [] p = HasPrefix [] p"
| "Contains (c # s) p = (HasPrefix (c # s) p \<or> Contains s p)"

definition TrimPrefix :: "string \<Rightarrow> string \<Rightarrow> string" where
  "TrimPrefix s p = (if HasPrefix s p then drop (length p) s else s)"

lemma HasPrefix_iff: "HasPrefix s p \<longleftrightarrow> prefix p s"
  by (auto simp: HasPrefix_def prefix_def intro: append_take_drop_id [symmetric])
     (metis append_take_drop_id)

lemma HasSuffix_iff: "HasSuffix s p \<longleftrightarrow> suffix p s"
  by (auto simp: HasSuffix_def suffix_def) (metis append_take_drop_id)

lemma Contains_iff: "Contains s p \<longleftrightarrow> sublist p s"
  by (induction s) (auto simp: HasPrefix_iff sublist_Cons_right)

lemma TrimPrefix_append [simp]: "TrimPrefix (p @ s) p = s"
  by (simp add: TrimPrefix_def HasPrefix_def)

lemma HasPrefix_append [simp]: "HasPrefix (p @ s) p"
  by (simp add: HasPrefix_def)

section \<open>Splitting and joining\<close>

text \<open>\<open>strings.Split\<close> with a one-byte separator; \<open>strings.Join\<close>.\<close>

fun Split :: "char \<Rightarrow> string \<Rightarrow> string list" where
  "Split c [] = [[]]"
| "Split c (x # xs) =
     (if x = c then [] # Split c xs
      else (case Split c xs of [] \<Rightarrow> [[x]] | p # ps \<Rightarrow> (x # p) # ps))"

fun Join :: "string \<Rightarrow> string list \<Rightarrow> string" where
  "Join sep [] = []"
| "Join sep [p] = p"
| "Join sep (p # q # ps) = p @ sep @ Join sep (q # ps)"

lemma Split_ne [simp]: "Split c s \<noteq> []"
  by (induction s) (auto split: list.splits)

lemma Join_Cons: "ps \<noteq> [] \<Longrightarrow> Join sep (p # ps) = p @ sep @ Join sep ps"
  by (cases ps) auto

lemma Join_Split: "Join [c] (Split c s) = s"
proof (induction s)
  case Nil
  then show ?case by simp
next
  case (Cons x xs)
  obtain p ps where s: "Split c xs = p # ps"
    by (cases "Split c xs") auto
  show ?case
    using Cons by (cases ps) (auto simp: s Join_Cons)
qed

lemma Split_no_sep: "p \<in> set (Split c s) \<Longrightarrow> c \<notin> set p"
  by (induction s arbitrary: p) (auto split: list.splits if_splits)

lemma Split_append_sep: "c \<notin> set p \<Longrightarrow> Split c (p @ c # s) = p # Split c s"
  by (induction p) auto

lemma Split_plain: "c \<notin> set p \<Longrightarrow> Split c p = [p]"
  by (induction p) auto

lemma Split_Join: "ps \<noteq> [] \<Longrightarrow> \<forall>p \<in> set ps. c \<notin> set p \<Longrightarrow> Split c (Join [c] ps) = ps"
  by (induction "[c]" ps rule: Join.induct) (auto simp: Split_plain Split_append_sep)

text \<open>\<open>strings.SplitN(s, sep, 2)\<close> with a one-byte separator.\<close>

definition SplitN2 :: "char \<Rightarrow> string \<Rightarrow> string list" where
  "SplitN2 c s =
     (if c \<in> set s then [takeWhile (\<lambda>x. x \<noteq> c) s, tl (dropWhile (\<lambda>x. x \<noteq> c) s)] else [s])"

lemma SplitN2_append:
  assumes "c \<notin> set p"
  shows "SplitN2 c (p @ c # s) = [p, s]"
proof -
  have "\<forall>x \<in> set p. x \<noteq> c" using assms by auto
  then show ?thesis by (simp add: SplitN2_def)
qed

text \<open>Two keys built with a separator that neither left part contains agree only if both parts do.\<close>

lemma sep_key_inject:
  fixes c :: char
  assumes "c \<notin> set p" "c \<notin> set p'"
  shows "p @ c # s = p' @ c # s' \<longleftrightarrow> p = p' \<and> s = s'"
proof
  assume "p @ c # s = p' @ c # s'"
  then have "SplitN2 c (p @ c # s) = SplitN2 c (p' @ c # s')" by simp
  then show "p = p' \<and> s = s'" by (simp add: SplitN2_append assms)
qed simp

section \<open>Padding\<close>

definition pad_zeros :: "nat \<Rightarrow> string \<Rightarrow> string" where
  "pad_zeros w s = replicate (w - length s) (CHR ''0'') @ s"

definition pad_right :: "nat \<Rightarrow> string \<Rightarrow> string" where
  "pad_right w s = s @ replicate (w - length s) (CHR '' '')"

text \<open>\<open>%04o\<close> of an unsigned number.\<close>

definition fmt_04o :: "nat \<Rightarrow> string" where
  "fmt_04o n = pad_zeros 4 (oct_str n)"

lemma length_fmt_04o: "4 \<le> length (fmt_04o n)"
  by (simp add: fmt_04o_def pad_zeros_def)

text \<open>\<open>%d\<close> of a signed integer.\<close>

definition int_str :: "int \<Rightarrow> string" where
  "int_str i = (if i < 0 then CHR ''-'' # dec_str (nat (- i)) else dec_str (nat i))"

text \<open>\<open>%x\<close> of a byte slice: two digits for each byte.\<close>

definition hex_byte :: "nat \<Rightarrow> string" where
  "hex_byte n = [digit_char (n div 16), digit_char (n mod 16)]"

definition fmt_x_bytes :: "byte list \<Rightarrow> string" where
  "fmt_x_bytes bs = concat (map (\<lambda>b. hex_byte (unat b)) bs)"

lemma length_fmt_x_bytes: "length (fmt_x_bytes bs) = 2 * length bs"
  by (induction bs) (auto simp: fmt_x_bytes_def hex_byte_def)

text \<open>
  The two characters outside ASCII that the program's messages contain, as the UTF-8 bytes of
  the Go string literals: an em dash, and an arrow.
\<close>

definition em_dash :: string where
  "em_dash = [CHR 0xE2, CHR 0x80, CHR 0x94]"

definition arrow :: string where
  "arrow = [CHR 0xE2, CHR 0x86, CHR 0x92]"

end
