(* ===== verification/GoUtf8.thy ===== *)
theory GoUtf8
  imports GoStrings
begin

text \<open>
  UTF-8 as the Go package \<open>unicode/utf8\<close> decodes it, \<open>strconv.Quote\<close> (the verb \<open>%q\<close> of
  \<open>fmt\<close>), the padding of \<open>%-Ns\<close> (which counts runes) and \<open>strings.TrimSpace\<close>.
  The table of printable characters above Latin-1 (\<open>strconv.IsPrint\<close>) is a parameter
  \<open>pr\<close> of the definitions that quote: nothing below depends on its contents.
\<close>

section \<open>Decoding one rune\<close>

definition ord :: "char \<Rightarrow> nat" where
  "ord c = of_char c"

lemma ord_inject: "ord c = ord d \<longleftrightarrow> c = d"
  by (auto simp: ord_def)

definition RuneError :: nat where
  "RuneError = 0xFFFD"

text \<open>
  The table \<open>first\<close>/\<open>acceptRanges\<close> of the package: for a leading byte the length of the
  sequence and the range of the second byte; length 0 marks a byte that cannot start one.
\<close>

definition lead_info :: "nat \<Rightarrow> nat \<times> nat \<times> nat" where
  "lead_info b =
     (if b < 0xC2 then (0, 0, 0)
      else if b < 0xE0 then (2, 0x80, 0xBF)
      else if b = 0xE0 then (3, 0xA0, 0xBF)
      else if b = 0xED then (3, 0x80, 0x9F)
      else if b < 0xF0 then (3, 0x80, 0xBF)
      else if b = 0xF0 then (4, 0x90, 0xBF)
      else if b < 0xF4 then (4, 0x80, 0xBF)
      else if b = 0xF4 then (4, 0x80, 0x8F)
      else (0, 0, 0))"

definition is_cont :: "nat \<Rightarrow> bool" where
  "is_cont b \<longleftrightarrow> 0x80 \<le> b \<and> b \<le> 0xBF"

text \<open>\<open>utf8.DecodeRuneInString\<close>: the rune and its width; \<open>(RuneError, 1)\<close> on bad encoding.\<close>

definition DecodeRune :: "string \<Rightarrow> nat \<times> nat" where
  "DecodeRune s =
     (if s = [] then (RuneError, 0)
      else let b0 = ord (s ! 0) in
      if b0 < 0x80 then (b0, 1)
      else let (sz, lo, hi) = lead_info b0 in
      if sz = 0 \<or> length s < sz then (RuneError, 1)
      else let b1 = ord (s ! 1) in
      if b1 < lo \<or> hi < b1 then (RuneError, 1)
      else if sz = 2 then ((b0 mod 32) * 64 + b1 mod 64, 2)
      else let b2 = ord (s ! 2) in
      if \<not> is_cont b2 then (RuneError, 1)
      else if sz = 3 then ((b0 mod 16) * 4096 + (b1 mod 64) * 64 + b2 mod 64, 3)
      else let b3 = ord (s ! 3) in
      if \<not> is_cont b3 then (RuneError, 1)
      else ((b0 mod 8) * 262144 + (b1 mod 64) * 4096 + (b2 mod 64) * 64 + b3 mod 64, 4))"

lemma lead_info_cases:
  obtains "lead_info b = (0, 0, 0)"
  | sz lo hi where "lead_info b = (sz, lo, hi)" "sz \<in> {2, 3, 4}" "0x80 \<le> lo"
proof (cases "fst (lead_info b) = 0")
  case True
  then have "lead_info b = (0, 0, 0)" by (auto simp: lead_info_def split: if_splits)
  with that(1) show ?thesis by blast
next
  case False
  then have "fst (lead_info b) \<in> {2, 3, 4} \<and> 0x80 \<le> fst (snd (lead_info b))"
    by (auto simp: lead_info_def split: if_splits)
  with that(2) show ?thesis by (cases "lead_info b") auto
qed

text \<open>
  The three outcomes of decoding: an ASCII byte, a bad byte, or a sequence of two to four
  bytes none of which is ASCII.
\<close>

lemma take_bytes:
  "2 \<le> length s \<Longrightarrow> take 2 s = [s ! 0, s ! 1]"
  "3 \<le> length s \<Longrightarrow> take 3 s = [s ! 0, s ! 1, s ! 2]"
  "4 \<le> length s \<Longrightarrow> take 4 s = [s ! 0, s ! 1, s ! 2, s ! 3]"
  by (auto simp: list_eq_iff_nth_eq less_Suc_eq eval_nat_numeral)

lemma DecodeRune_multi:
  assumes "s \<noteq> []" "\<not> ord (s ! 0) < 0x80"
    and li: "lead_info (ord (s ! 0)) = (sz, lo, hi)" "sz \<in> {2, 3, 4}" "0x80 \<le> lo"
  shows "DecodeRune s = (RuneError, 1) \<or>
    (\<exists>r. DecodeRune s = (r, sz) \<and> sz \<le> length s \<and> (\<forall>c \<in> set (take sz s). 0x80 \<le> ord c))"
proof -
  consider "sz = 2" | "sz = 3" | "sz = 4" using li(2) by blast
  then show ?thesis
  proof cases
    case 1
    with assms show ?thesis by (auto simp: DecodeRune_def Let_def take_bytes)
  next
    case 2
    with assms show ?thesis
      by (auto simp: DecodeRune_def Let_def take_bytes is_cont_def)
  next
    case 3
    with assms show ?thesis
      by (auto simp: DecodeRune_def Let_def take_bytes is_cont_def)
  qed
qed

lemma DecodeRune_cases [consumes 1, case_names ascii bad multi]:
  assumes "s \<noteq> []"
  obtains "ord (hd s) < 0x80" "DecodeRune s = (ord (hd s), 1)"
  | "0x80 \<le> ord (hd s)" "DecodeRune s = (RuneError, 1)"
  | r w where "DecodeRune s = (r, w)" "2 \<le> w" "w \<le> length s"
      "\<forall>c \<in> set (take w s). 0x80 \<le> ord c"
proof (cases "ord (hd s) < 0x80")
  case True
  with assms that(1) show ?thesis by (simp add: DecodeRune_def hd_conv_nth)
next
  case big: False
  note hd0 = hd_conv_nth [OF assms]
  show ?thesis
  proof (cases rule: lead_info_cases [of "ord (hd s)"])
    case 1
    with big assms that(2) show ?thesis by (simp add: DecodeRune_def hd0)
  next
    case (2 sz lo hi)
    with big assms DecodeRune_multi [of s sz lo hi] that(2,3) show ?thesis
      by (auto simp: hd0)
  qed
qed

lemma DecodeRune_width:
  assumes "s \<noteq> []"
  shows "1 \<le> snd (DecodeRune s) \<and> snd (DecodeRune s) \<le> length s"
  using assms
proof (cases rule: DecodeRune_cases)
  case (multi r w)
  then show ?thesis by simp
qed (use assms in \<open>auto simp: Suc_le_eq\<close>)

text \<open>The number of runes, invalid bytes included: \<open>utf8.RuneCountInString\<close>.\<close>

function rune_count :: "string \<Rightarrow> nat" where
  "rune_count s = (if s = [] then 0 else Suc (rune_count (drop (snd (DecodeRune s)) s)))"
  by pat_completeness auto
termination
proof (relation "measure length")
  fix s :: string
  assume "s \<noteq> []"
  then show "(drop (snd (DecodeRune s)) s, s) \<in> measure length"
    using DecodeRune_width [of s] by simp
qed simp

declare rune_count.simps [simp del]

text \<open>\<open>%-Ns\<close>.\<close>

definition fmt_left :: "nat \<Rightarrow> string \<Rightarrow> string" where
  "fmt_left w s = s @ replicate (w - rune_count s) (CHR '' '')"

section \<open>\<open>strconv.Quote\<close>\<close>

definition IsPrint :: "(nat \<Rightarrow> bool) \<Rightarrow> nat \<Rightarrow> bool" where
  "IsPrint pr r =
     (if r \<le> 0xFF then (0x20 \<le> r \<and> r < 0x7F) \<or> (0xA1 \<le> r \<and> r \<noteq> 0xAD) else pr r)"

definition hex_pad :: "nat \<Rightarrow> nat \<Rightarrow> string" where
  "hex_pad w n = pad_zeros w (hex_str n)"

text \<open>
  \<open>appendEscapedRune\<close>; \<open>enc\<close> is the encoding of the rune, the bytes it was decoded from.
\<close>

definition quote_rune :: "(nat \<Rightarrow> bool) \<Rightarrow> nat \<Rightarrow> string \<Rightarrow> string" where
  "quote_rune pr r enc =
     (if r = 0x22 \<or> r = 0x5C then [CHR 0x5C, char_of r]
      else if IsPrint pr r then enc
      else if r = 0x07 then [CHR 0x5C, CHR ''a'']
      else if r = 0x08 then [CHR 0x5C, CHR ''b'']
      else if r = 0x0C then [CHR 0x5C, CHR ''f'']
      else if r = 0x0A then [CHR 0x5C, CHR ''n'']
      else if r = 0x0D then [CHR 0x5C, CHR ''r'']
      else if r = 0x09 then [CHR 0x5C, CHR ''t'']
      else if r = 0x0B then [CHR 0x5C, CHR ''v'']
      else if r < 0x20 \<or> r = 0x7F then [CHR 0x5C, CHR ''x''] @ hex_byte r
      else if r < 0x10000 then [CHR 0x5C, CHR ''u''] @ hex_pad 4 r
      else [CHR 0x5C, CHR ''U''] @ hex_pad 8 r)"

function quote_body :: "(nat \<Rightarrow> bool) \<Rightarrow> string \<Rightarrow> string" where
  "quote_body pr s =
     (if s = [] then []
      else let (r, w) = DecodeRune s in
      (if w = 1 \<and> r = RuneError then [CHR 0x5C, CHR ''x''] @ hex_byte (ord (hd s))
       else quote_rune pr r (take w s)) @ quote_body pr (drop w s))"
  by pat_completeness auto
termination
proof (relation "measure (\<lambda>(pr, s). length s)")
  fix pr :: "nat \<Rightarrow> bool" and s :: string and x r w
  assume "s \<noteq> []" "x = DecodeRune s" "(r, w) = x"
  then show "((pr, drop w s), (pr, s)) \<in> measure (\<lambda>(pr, s). length s)"
    using DecodeRune_width [of s] by (cases "DecodeRune s") simp
qed simp

declare quote_body.simps [simp del]

definition Quote :: "(nat \<Rightarrow> bool) \<Rightarrow> string \<Rightarrow> string" where
  "Quote pr s = [CHR 0x22] @ quote_body pr s @ [CHR 0x22]"

text \<open>
  A quoted string holds no control byte: neither a line feed nor an escape character can
  reach a terminal through \<open>%q\<close>.
\<close>

definition printable_bytes :: "string \<Rightarrow> bool" where
  "printable_bytes s \<longleftrightarrow> (\<forall>c \<in> set s. 0x20 \<le> ord c \<and> ord c \<noteq> 0x7F)"

lemma printable_append [simp]:
  "printable_bytes (s @ t) \<longleftrightarrow> printable_bytes s \<and> printable_bytes t"
  by (auto simp: printable_bytes_def)

lemma printable_Nil [simp]: "printable_bytes []"
  by (simp add: printable_bytes_def)

lemma ord_digit_char: "d < 16 \<Longrightarrow> 0x30 \<le> ord (digit_char d) \<and> ord (digit_char d) < 0x67"
  by (auto simp: ord_def digit_char_def of_char_of)

lemma itoa_chars:
  "c \<in> set (itoa b n) \<Longrightarrow> 2 \<le> b \<Longrightarrow> b \<le> 16 \<Longrightarrow> 0x30 \<le> ord c \<and> ord c < 0x67"
proof (induction b n rule: itoa.induct)
  case (1 b n)
  have "n mod b < 16" using "1.prems" mod_less_divisor [of b n] by linarith
  with 1 show ?case
    using ord_digit_char [of n] ord_digit_char [of "n mod b"]
    by (subst (asm) (2) itoa.simps) (auto split: if_splits)
qed

lemma printable_itoa: "2 \<le> b \<Longrightarrow> b \<le> 16 \<Longrightarrow> printable_bytes (itoa b n)"
  using itoa_chars [of _ b n] by (fastforce simp: printable_bytes_def)

lemma printable_hex_byte:
  assumes "n < 256"
  shows "printable_bytes (hex_byte n)"
proof -
  have "n div 16 < 16" using assms by simp
  then show ?thesis
    using ord_digit_char [of "n div 16"] ord_digit_char [of "n mod 16"]
    by (simp add: hex_byte_def printable_bytes_def)
qed

lemma printable_hex_pad: "printable_bytes (hex_pad w n)"
  using printable_itoa [of 16 n]
  by (auto simp: hex_pad_def pad_zeros_def hex_str_def printable_bytes_def ord_def)

lemma ord_less_256 [simp]: "ord c < 256"
  by (simp add: ord_def)

lemma ord_char_of [simp]: "n < 256 \<Longrightarrow> ord (char_of n) = n"
  by (simp add: ord_def of_char_of)

lemma printable_quote_rune:
  assumes "IsPrint pr r \<Longrightarrow> printable_bytes enc"
  shows "printable_bytes (quote_rune pr r enc)"
proof -
  have bs: "printable_bytes [CHR 0x5C, c]" if "0x20 \<le> ord c" "ord c \<noteq> 0x7F" for c
    using that by (simp add: printable_bytes_def ord_def)
  have "printable_bytes ([CHR 0x5C, CHR ''x''] @ hex_byte r)" if "r < 0x20 \<or> r = 0x7F"
    using that bs printable_hex_byte [of r] by (subst printable_append) (auto simp: ord_def)
  moreover have "printable_bytes ([CHR 0x5C, CHR ''u''] @ hex_pad 4 r)"
    and "printable_bytes ([CHR 0x5C, CHR ''U''] @ hex_pad 8 r)"
    using bs printable_hex_pad by (simp_all only: printable_append) (simp_all add: ord_def)
  moreover have "printable_bytes [CHR 0x5C, char_of r]" if "r = 0x22 \<or> r = 0x5C"
    using that by (intro bs) (auto simp: ord_def)
  ultimately show ?thesis
    using assms by (simp add: quote_rune_def bs ord_def)
qed

lemma printable_quote_body: "printable_bytes (quote_body pr s)"
proof (induction pr s rule: quote_body.induct)
  case (1 pr s)
  show ?case
  proof (cases "s = []")
    case True
    then show ?thesis by (simp add: quote_body.simps)
  next
    case ne: False
    obtain r w where d: "DecodeRune s = (r, w)" by force
    have IH: "printable_bytes (quote_body pr (drop w s))"
      using "1.IH" ne d by simp
    have esc: "printable_bytes [CHR 0x5C, CHR ''x'']"
      by (simp add: printable_bytes_def ord_def)
    have "printable_bytes (if w = 1 \<and> r = RuneError
        then [CHR 0x5C, CHR ''x''] @ hex_byte (ord (hd s)) else quote_rune pr r (take w s))"
      using ne
    proof (cases rule: DecodeRune_cases)
      case ascii
      have "take 1 s = [hd s]" using ne by (cases s) auto
      with ascii d show ?thesis
        using printable_quote_rune [of pr "ord (hd s)" "[hd s]"]
        by (auto simp: RuneError_def IsPrint_def printable_bytes_def [of "[hd s]"])
    next
      case bad
      have "printable_bytes ([CHR 0x5C, CHR ''x''] @ hex_byte (ord (hd s)))"
        using esc printable_hex_byte [of "ord (hd s)"] by (simp only: printable_append) simp
      with bad d show ?thesis by simp
    next
      case (multi r' w')
      with d esc show ?thesis
        using printable_quote_rune [of pr r "take w s"] by (fastforce simp: printable_bytes_def)
    qed
    with ne d IH show ?thesis by (subst quote_body.simps) simp
  qed
qed

lemma printable_Quote: "printable_bytes (Quote pr s)"
  using printable_quote_body [of pr s] by (simp add: Quote_def printable_bytes_def ord_def)

section \<open>\<open>strings.TrimSpace\<close>\<close>

definition IsSpace :: "nat \<Rightarrow> bool" where
  "IsSpace r \<longleftrightarrow> (9 \<le> r \<and> r \<le> 13) \<or> r = 0x20 \<or> r = 0x85 \<or> r = 0xA0 \<or> r = 0x1680 \<or>
     (0x2000 \<le> r \<and> r \<le> 0x200A) \<or> r = 0x2028 \<or> r = 0x2029 \<or> r = 0x202F \<or> r = 0x205F \<or> r = 0x3000"

function trim_left :: "string \<Rightarrow> string" where
  "trim_left s =
     (if s = [] then []
      else if IsSpace (fst (DecodeRune s)) then trim_left (drop (snd (DecodeRune s)) s) else s)"
  by pat_completeness auto
termination
proof (relation "measure length")
  fix s :: string
  assume "s \<noteq> []"
  then show "(drop (snd (DecodeRune s)) s, s) \<in> measure length"
    using DecodeRune_width [of s] by simp
qed simp

declare trim_left.simps [simp del]

text \<open>
  \<open>utf8.DecodeLastRuneInString\<close>: the start of the last rune is looked for two to four bytes
  before the end; if decoding from there does not reach the end, the last byte is bad.
\<close>

definition RuneStart :: "char \<Rightarrow> bool" where
  "RuneStart c \<longleftrightarrow> ord c div 64 \<noteq> 2"

definition DecodeLastRune :: "string \<Rightarrow> nat \<times> nat" where
  "DecodeLastRune s =
     (if s = [] then (RuneError, 0)
      else if ord (last s) < 0x80 then (ord (last s), 1)
      else case find (\<lambda>k. k \<le> length s \<and> RuneStart (s ! (length s - k))) [2, 3, 4] of
        None \<Rightarrow> (RuneError, 1)
      | Some k \<Rightarrow>
          (let (r, w) = DecodeRune (drop (length s - k) s)
           in if w = k then (r, w) else (RuneError, 1)))"

lemma DecodeLastRune_width:
  assumes "s \<noteq> []"
  shows "1 \<le> snd (DecodeLastRune s)"
  using assms by (auto simp: DecodeLastRune_def split: option.splits prod.splits)

function trim_right :: "string \<Rightarrow> string" where
  "trim_right s =
     (if s = [] then []
      else if IsSpace (fst (DecodeLastRune s))
        then trim_right (take (length s - snd (DecodeLastRune s)) s) else s)"
  by pat_completeness auto
termination
proof (relation "measure length")
  fix s :: string
  assume "s \<noteq> []"
  then show "(take (length s - snd (DecodeLastRune s)) s, s) \<in> measure length"
    using DecodeLastRune_width [of s] by (cases s) auto
qed simp

declare trim_right.simps [simp del]

definition TrimSpace :: "string \<Rightarrow> string" where
  "TrimSpace s = trim_right (trim_left s)"

end
