(* ===== verification/Types.thy ===== *)
theory Types
  imports GoUtf8
begin

text \<open>
  The shared data of the program, \<open>internal/types/types.go\<close>: the open enumerations
  \<open>EventType\<close>, \<open>Phase\<close> and \<open>Severity\<close> (Go \<open>uint8\<close>s, so every byte is a value and each
  \<open>String\<close> method has a default branch), the flag bits, the wire record \<open>ChainEvent\<close> with its
  accessors, and \<open>Alert\<close>. Record fields carry a prefix: \<open>e_\<close> for \<open>ChainEvent\<close>, \<open>a_\<close> for
  \<open>Alert\<close>. Fixed Go arrays are byte lists whose lengths \<open>wf_event\<close> fixes.
\<close>

type_synonym EventType = byte
type_synonym Phase = byte
type_synonym Severity = byte

definition EvtExec :: EventType where [simp]: "EvtExec = 1"
definition EvtFileOpen :: EventType where [simp]: "EvtFileOpen = 2"
definition EvtNetConnect :: EventType where [simp]: "EvtNetConnect = 3"
definition EvtMemfdCreate :: EventType where [simp]: "EvtMemfdCreate = 4"
definition EvtExecveat :: EventType where [simp]: "EvtExecveat = 5"
definition EvtFileWrite :: EventType where [simp]: "EvtFileWrite = 6"
definition EvtChmod :: EventType where [simp]: "EvtChmod = 7"
definition EvtDnsLookup :: EventType where [simp]: "EvtDnsLookup = 8"
definition EvtBpfLoad :: EventType where [simp]: "EvtBpfLoad = 9"

definition PhaseUnknown :: Phase where [simp]: "PhaseUnknown = 0"
definition PhaseDownload :: Phase where [simp]: "PhaseDownload = 1"
definition PhaseExtract :: Phase where [simp]: "PhaseExtract = 2"
definition PhaseBuild :: Phase where [simp]: "PhaseBuild = 3"
definition PhaseCompile :: Phase where [simp]: "PhaseCompile = 4"
definition PhaseLink :: Phase where [simp]: "PhaseLink = 5"
definition PhaseInstall :: Phase where [simp]: "PhaseInstall = 6"
definition PhasePostinst :: Phase where [simp]: "PhasePostinst = 7"

definition SevInfo :: Severity where [simp]: "SevInfo = 0"
definition SevLow :: Severity where [simp]: "SevLow = 1"
definition SevMedium :: Severity where [simp]: "SevMedium = 2"
definition SevHigh :: Severity where [simp]: "SevHigh = 3"
definition SevCritical :: Severity where [simp]: "SevCritical = 4"

definition ExecFlagTempPath :: u32 where "ExecFlagTempPath = push_bit 0 1"
definition ExecFlagStdinPipe :: u32 where "ExecFlagStdinPipe = push_bit 1 1"
definition ExecFlagIsShell :: u32 where "ExecFlagIsShell = push_bit 2 1"

definition EnvFlagLdPreload :: u32 where "EnvFlagLdPreload = push_bit 0 1"
definition EnvFlagLdLibrary :: u32 where "EnvFlagLdLibrary = push_bit 1 1"
definition EnvFlagAwsKey :: u32 where "EnvFlagAwsKey = push_bit 2 1"
definition EnvFlagGitToken :: u32 where "EnvFlagGitToken = push_bit 3 1"
definition EnvFlagNpmToken :: u32 where "EnvFlagNpmToken = push_bit 4 1"
definition EnvFlagPypiToken :: u32 where "EnvFlagPypiToken = push_bit 5 1"
definition EnvFlagCargoToken :: u32 where "EnvFlagCargoToken = push_bit 6 1"
definition EnvFlagGenericSec :: u32 where "EnvFlagGenericSec = push_bit 7 1"

lemmas exec_flag_defs = ExecFlagTempPath_def ExecFlagStdinPipe_def ExecFlagIsShell_def
lemmas env_flag_defs = EnvFlagLdPreload_def EnvFlagLdLibrary_def EnvFlagAwsKey_def
  EnvFlagGitToken_def EnvFlagNpmToken_def EnvFlagPypiToken_def EnvFlagCargoToken_def
  EnvFlagGenericSec_def

section \<open>\<open>String\<close> methods\<close>

definition EventType_String :: "EventType \<Rightarrow> string" where
  "EventType_String e =
     (if e = EvtExec then ''exec''
      else if e = EvtFileOpen then ''file_open''
      else if e = EvtNetConnect then ''net_connect''
      else if e = EvtMemfdCreate then ''memfd_create''
      else if e = EvtExecveat then ''execveat_anon''
      else if e = EvtFileWrite then ''file_write''
      else if e = EvtChmod then ''chmod''
      else if e = EvtDnsLookup then ''dns_lookup''
      else if e = EvtBpfLoad then ''bpf_load''
      else ''unknown('' @ dec_str (unat e) @ '')'')"

definition Phase_String :: "Phase \<Rightarrow> string" where
  "Phase_String p =
     (if p = PhaseDownload then ''download''
      else if p = PhaseExtract then ''extract''
      else if p = PhaseBuild then ''build''
      else if p = PhaseCompile then ''compile''
      else if p = PhaseLink then ''link''
      else if p = PhaseInstall then ''install''
      else if p = PhasePostinst then ''postinstall''
      else ''unknown'')"

definition Severity_String :: "Severity \<Rightarrow> string" where
  "Severity_String s =
     (if s = SevInfo then ''info''
      else if s = SevLow then ''low''
      else if s = SevMedium then ''medium''
      else if s = SevHigh then ''high''
      else if s = SevCritical then ''critical''
      else ''unknown'')"

section \<open>The wire record\<close>

record ChainEvent =
  e_Timestamp :: u64
  e_Pid :: u32
  e_Ppid :: u32
  e_RootPid :: u32
  e_EventType :: byte
  e_Phase :: byte
  e_Severity :: byte
  e_Pad :: byte
  e_Comm :: "byte list"
  e_RootComm :: "byte list"
  e_Path :: "byte list"
  e_OpenFlags :: u32
  e_Argv :: "byte list"
  e_EnvFlags :: u32
  e_ExecFlags :: u32
  e_Daddr :: "byte list"
  e_Dport :: u16
  e_Proto :: byte
  e_IsIPv6 :: byte
  e_NewMode :: u32
  e_Pad2 :: u32
  e_MemfdName :: "byte list"
  e_MemfdFlags :: u32
  e_Pad3 :: u32

definition wf_event :: "ChainEvent \<Rightarrow> bool" where
  "wf_event e \<longleftrightarrow> length (e_Comm e) = 16 \<and> length (e_RootComm e) = 16 \<and>
     length (e_Path e) = 256 \<and> length (e_Argv e) = 96 \<and> length (e_Daddr e) = 16 \<and>
     length (e_MemfdName e) = 64"

text \<open>\<open>cstring\<close>: the bytes before the first NUL, all of them if there is none.\<close>

fun cstring_upto :: "byte list \<Rightarrow> byte list" where
  "cstring_upto [] = []"
| "cstring_upto (c # b) = (if c = 0 then [] else c # cstring_upto b)"

definition cstring :: "byte list \<Rightarrow> string" where
  "cstring b = string_of_bytes (cstring_upto b)"

definition CommStr :: "ChainEvent \<Rightarrow> string" where
  "CommStr e = cstring (e_Comm e)"

definition RootCommStr :: "ChainEvent \<Rightarrow> string" where
  "RootCommStr e = cstring (e_RootComm e)"

definition PathStr :: "ChainEvent \<Rightarrow> string" where
  "PathStr e = cstring (e_Path e)"

definition MemfdNameStr :: "ChainEvent \<Rightarrow> string" where
  "MemfdNameStr e = cstring (e_MemfdName e)"

text \<open>
  \<open>ArgvStr\<close>: the loop over the eight slots of 12 bytes, stopping at the first empty one.
  \<open>argv_parts b i n\<close> runs the iterations \<open>i\<close>, \dots, \<open>i + n - 1\<close>.
\<close>

fun argv_parts :: "byte list \<Rightarrow> nat \<Rightarrow> nat \<Rightarrow> string list" where
  "argv_parts b i 0 = []"
| "argv_parts b i (Suc n) =
     (let s = cstring (take 12 (drop (i * 12) b)) in
      if s = [] then [] else s # argv_parts b (Suc i) n)"

definition ArgvStr :: "ChainEvent \<Rightarrow> string" where
  "ArgvStr e = Join '' '' (argv_parts (e_Argv e) 0 8)"

definition EnvFlagNames :: "ChainEvent \<Rightarrow> string list" where
  "EnvFlagNames e =
     (if e_EnvFlags e AND EnvFlagLdPreload \<noteq> 0 then [''LD_PRELOAD''] else []) @
     (if e_EnvFlags e AND EnvFlagLdLibrary \<noteq> 0 then [''LD_LIBRARY_PATH''] else []) @
     (if e_EnvFlags e AND EnvFlagAwsKey \<noteq> 0 then [''AWS_ACCESS_KEY_ID''] else []) @
     (if e_EnvFlags e AND EnvFlagGitToken \<noteq> 0 then [''GITHUB_TOKEN''] else []) @
     (if e_EnvFlags e AND EnvFlagNpmToken \<noteq> 0 then [''NPM_TOKEN''] else []) @
     (if e_EnvFlags e AND EnvFlagPypiToken \<noteq> 0 then [''PYPI_TOKEN''] else []) @
     (if e_EnvFlags e AND EnvFlagCargoToken \<noteq> 0 then [''CARGO_REGISTRY_TOKEN''] else []) @
     (if e_EnvFlags e AND EnvFlagGenericSec \<noteq> 0 then [''*SECRET*/*PASSWD*''] else [])"

text \<open>\<open>DstIP\<close>: a \<open>net.IP\<close> is a byte slice, of 4 or of 16 bytes.\<close>

definition DstIP :: "ChainEvent \<Rightarrow> byte list" where
  "DstIP e = (if e_IsIPv6 e \<noteq> 0 then take 16 (e_Daddr e) else take 4 (e_Daddr e))"

record Alert =
  a_Event :: ChainEvent
  a_Rule :: string
  a_Description :: string
  a_Severity :: Severity
  a_ContainerID :: string
  a_Runtime :: string
  a_PodName :: string
  a_Namespace :: string

text \<open>
  A Go composite literal \<open>types.Alert{Event: e, Rule: r, Severity: s, Description: d}\<close> leaves
  the container fields at their zero value.
\<close>

definition mk_alert :: "ChainEvent \<Rightarrow> string \<Rightarrow> Severity \<Rightarrow> string \<Rightarrow> Alert" where
  "mk_alert e r s d =
     \<lparr>a_Event = e, a_Rule = r, a_Description = d, a_Severity = s,
      a_ContainerID = [], a_Runtime = [], a_PodName = [], a_Namespace = []\<rparr>"

lemma mk_alert_sel [simp]:
  "a_Event (mk_alert e r s d) = e" "a_Rule (mk_alert e r s d) = r"
  "a_Severity (mk_alert e r s d) = s" "a_Description (mk_alert e r s d) = d"
  "a_ContainerID (mk_alert e r s d) = []"
  by (simp_all add: mk_alert_def)

section \<open>Facts about the accessors\<close>

lemma cstring_upto_takeWhile: "cstring_upto b = takeWhile (\<lambda>c. c \<noteq> 0) b"
  by (induction b) auto

lemma cstring_no_nul: "CHR 0x00 \<notin> set (cstring b)"
proof
  assume "CHR 0x00 \<in> set (cstring b)"
  then obtain x where "x \<in> set (takeWhile (\<lambda>c. c \<noteq> 0) b)" "char_of_byte x = CHR 0x00"
    by (auto simp: cstring_def string_of_bytes_def cstring_upto_takeWhile)
  then show False by (auto simp: char_of_byte_zero dest: set_takeWhileD)
qed

lemma length_cstring: "length (cstring b) \<le> length b"
  by (simp add: cstring_def cstring_upto_takeWhile length_takeWhile_le)

text \<open>A C string stored in a buffer is read back unchanged if it holds no NUL.\<close>

lemma cstring_stored:
  assumes "CHR 0x00 \<notin> set s"
  shows "cstring (bytes_of_string s @ 0 # r) = s"
proof -
  have "takeWhile (\<lambda>c. c \<noteq> 0) (bytes_of_string s @ 0 # r) = bytes_of_string s"
  proof (subst takeWhile_append2)
    fix x assume "x \<in> set (bytes_of_string s)"
    then obtain c where "c \<in> set s" "x = byte_of_char c" by (auto simp: bytes_of_string_def)
    with assms show "x \<noteq> 0" by (metis char_of_byte_of_char char_of_byte_zero)
  qed simp
  then show ?thesis by (simp add: cstring_def cstring_upto_takeWhile)
qed

text \<open>The Go zero value \<open>types.ChainEvent{}\<close>, and \<open>copy(a[:], s)\<close> into a zeroed array.\<close>

definition zero_event :: ChainEvent where
  "zero_event =
     \<lparr>e_Timestamp = 0, e_Pid = 0, e_Ppid = 0, e_RootPid = 0, e_EventType = 0, e_Phase = 0,
      e_Severity = 0, e_Pad = 0, e_Comm = replicate 16 0, e_RootComm = replicate 16 0,
      e_Path = replicate 256 0, e_OpenFlags = 0, e_Argv = replicate 96 0, e_EnvFlags = 0,
      e_ExecFlags = 0, e_Daddr = replicate 16 0, e_Dport = 0, e_Proto = 0, e_IsIPv6 = 0,
      e_NewMode = 0, e_Pad2 = 0, e_MemfdName = replicate 64 0, e_MemfdFlags = 0, e_Pad3 = 0\<rparr>"

definition c_array :: "nat \<Rightarrow> string \<Rightarrow> byte list" where
  "c_array n s = take n (bytes_of_string s @ replicate n 0)"

lemma wf_zero_event [simp]: "wf_event zero_event"
  by (simp add: wf_event_def zero_event_def)

lemma length_c_array [simp]: "length (c_array n s) = n"
  by (simp add: c_array_def)

section \<open>Arguments in slots\<close>

text \<open>
  One argument as the kernel side stores it: \<open>bpf_probe_read_user_str\<close> copies at most 11 bytes and
  a NUL into a slot of 12 zeroed bytes.
\<close>

definition argv_slot :: "string \<Rightarrow> byte list" where
  "argv_slot s = (let b = take 11 (bytes_of_string s) in b @ replicate (12 - length b) 0)"

lemma length_argv_slot [simp]: "length (argv_slot s) = 12"
  by (simp add: argv_slot_def Let_def)

lemma cstring_slot: "CHR 0x00 \<notin> set s \<Longrightarrow> cstring (argv_slot s) = take 11 s"
proof -
  assume nn: "CHR 0x00 \<notin> set s"
  have t: "take 11 (bytes_of_string s) = bytes_of_string (take 11 s)"
    by (simp add: bytes_of_string_def take_map)
  have "0 < 12 - length (take 11 (bytes_of_string s))" by simp
  then obtain k where "12 - length (take 11 (bytes_of_string s)) = Suc k"
    using gr0_conv_Suc by blast
  then have "argv_slot s = bytes_of_string (take 11 s) @ 0 # replicate k 0"
    by (simp add: argv_slot_def Let_def t)
  moreover have "CHR 0x00 \<notin> set (take 11 s)" using nn by (auto dest: in_set_takeD)
  ultimately show ?thesis by (simp add: cstring_stored)
qed

text \<open>The loop over slots that are followed by zeros reads the arguments up to an empty one.\<close>

lemma argv_parts_slots:
  assumes "\<forall>s \<in> set args. CHR 0x00 \<notin> set s" "length args \<le> n" "length pre = 12 * i"
    and "length args + i + z = n + i"
  shows "argv_parts (pre @ concat (map argv_slot args) @ replicate (12 * z) 0) i n =
    map (take 11) (takeWhile (\<lambda>s. s \<noteq> []) args)"
  using assms
proof (induction args arbitrary: pre i n)
  case Nil
  show ?case
  proof (cases n)
    case (Suc m)
    have "cstring (take 12 (replicate (12 * z) 0)) = []"
      by (cases "12 * z") (simp_all add: cstring_def string_of_bytes_def)
    with Nil Suc show ?thesis by (simp add: mult.commute)
  qed simp
next
  case (Cons a args)
  then obtain m where n: "n = Suc m" by (cases n) auto
  have c: "cstring (argv_slot a) = take 11 a" using Cons.prems(1) by (simp add: cstring_slot)
  have "take 12 (drop (i * 12) (pre @ concat (map argv_slot (a # args)) @ replicate (12 * z) 0)) =
    argv_slot a"
    using Cons.prems(3) by (simp add: mult.commute)
  moreover have "argv_parts ((pre @ argv_slot a) @ concat (map argv_slot args) @
      replicate (12 * z) 0) (Suc i) m = map (take 11) (takeWhile (\<lambda>s. s \<noteq> []) args)"
    using Cons.prems by (intro Cons.IH) (auto simp: n)
  ultimately show ?case by (simp add: n c)
qed

text \<open>
  The printed arguments of an exec event: for at most eight arguments stored in their slots, the
  text is the arguments before the first empty one, each cut to 11 bytes, separated by spaces.
\<close>

theorem ArgvStr_slots:
  assumes "\<forall>s \<in> set args. CHR 0x00 \<notin> set s" "length args \<le> 8"
    and "e_Argv e = concat (map argv_slot args) @ replicate (12 * (8 - length args)) 0"
  shows "ArgvStr e = Join '' '' (map (take 11) (takeWhile (\<lambda>s. s \<noteq> []) args))"
  using argv_parts_slots [of args 8 "[]" 0 "8 - length args"] assms by (simp add: ArgvStr_def)

theorem ArgvStr_slots_witness:
  "ArgvStr (zero_event\<lparr>e_Argv := concat (map argv_slot [''-c'', ''https://evil.example'', [], ''x''])
      @ replicate 48 0\<rparr>) = ''-c https://evi''"
  using ArgvStr_slots [of "[''-c'', ''https://evil.example'', [], ''x'']"
      "zero_event\<lparr>e_Argv := concat (map argv_slot [''-c'', ''https://evil.example'', [], ''x''])
        @ replicate 48 0\<rparr>"]
  by simp

end
