(* ===== verification/Wire.thy ===== *)
theory Wire
  imports Types "HOL-Library.State_Monad"
begin

text \<open>
  The kernel/user boundary: the little-endian layout of \<open>struct chain_event\<close>
  (\<open>bpf/chainscope.h\<close>) and \<open>Loader.ReadEvent\<close>, \<open>SeedPID\<close> and \<open>DroppedEvents\<close> of
  \<open>internal/loader/loader.go\<close>. \<open>binary.Read\<close> first fills a buffer of 520 bytes
  (\<open>io.ReadFull\<close>) and then takes the fields off it one after the other; \<open>encode_event\<close> lays
  the fields out as the C struct does. The locale \<open>field_codec\<close> is the contract of one field;
  it is interpreted for the four integer widths and for byte arrays.

  The ring buffer reader and the BPF map operations belong to \<open>github.com/cilium/ebpf\<close>: their
  results are arguments.
\<close>

section \<open>Little-endian integers\<close>

fun le_bytes :: "nat \<Rightarrow> nat \<Rightarrow> byte list" where
  "le_bytes 0 n = []"
| "le_bytes (Suc k) n = of_nat (n mod 256) # le_bytes k (n div 256)"

fun le_val :: "byte list \<Rightarrow> nat" where
  "le_val [] = 0"
| "le_val (b # bs) = unat b + 256 * le_val bs"

lemma length_le_bytes [simp]: "length (le_bytes k n) = k"
  by (induction k arbitrary: n) auto

lemma unat_byte_of_nat: "unat (of_nat (n mod 256) :: byte) = n mod 256"
  by (simp add: unsigned_of_nat take_bit_eq_mod)

lemma le_val_bytes: "n < 256 ^ k \<Longrightarrow> le_val (le_bytes k n) = n"
proof (induction k arbitrary: n)
  case 0
  then show ?case by simp
next
  case (Suc k)
  have "n div 256 < 256 ^ k" using Suc.prems by (simp add: less_mult_imp_div_less mult.commute)
  with Suc.IH show ?case by (simp add: unat_byte_of_nat)
qed

lemma le_val_less: "le_val bs < 256 ^ length bs"
proof (induction bs)
  case Nil
  then show ?case by simp
next
  case (Cons b bs)
  have "unat b < 256" using unsigned_less [of b, where ?'a = nat] by simp
  with Cons show ?case by (simp add: Suc_le_eq)
qed

lemma le_bytes_val: "le_bytes (length bs) (le_val bs) = bs"
proof (induction bs)
  case Nil
  then show ?case by simp
next
  case (Cons b bs)
  have "unat b < 256" using unsigned_less [of b, where ?'a = nat] by simp
  with Cons show ?case by simp
qed

section \<open>The contract of one field\<close>

text \<open>
  A reader takes the front of the buffer off; a writer produces the same number of bytes. The
  reader inverts the writer on valid values, and the writer inverts the reader on buffers that
  are long enough.
\<close>

type_synonym 'a reader = "(byte list, 'a) state"

locale field_codec =
  fixes rd :: "'a reader" and wr :: "'a \<Rightarrow> byte list" and ok :: "'a \<Rightarrow> bool" and width :: nat
  assumes rd_wr: "ok x \<Longrightarrow> run_state rd (wr x @ rest) = (x, rest)"
    and wr_rd: "width \<le> length bs \<Longrightarrow>
      wr (fst (run_state rd bs)) @ snd (run_state rd bs) = bs \<and> ok (fst (run_state rd bs))"
    and wr_len: "ok x \<Longrightarrow> length (wr x) = width"
begin

lemma rd_rest:
  assumes "width \<le> length bs"
  shows "snd (run_state rd bs) = drop width bs"
proof -
  let ?x = "fst (run_state rd bs)" and ?r = "snd (run_state rd bs)"
  have "wr ?x @ ?r = bs" "length (wr ?x) = width"
    using wr_rd [OF assms] wr_len by auto
  then show ?thesis by (metis append_eq_conv_conj)
qed

lemma wr_take:
  assumes "width \<le> length bs"
  shows "wr (fst (run_state rd bs)) = take width bs"
  using wr_rd [OF assms] wr_len by (metis append_eq_conv_conj)

lemma wr_inject: "ok x \<Longrightarrow> ok y \<Longrightarrow> wr x = wr y \<longleftrightarrow> x = y"
  by (metis rd_wr fst_conv)

end

definition rd_uint :: "nat \<Rightarrow> 'a::len word reader" where
  "rd_uint k = State (\<lambda>bs. (of_nat (le_val (take k bs)), drop k bs))"

definition wr_uint :: "nat \<Rightarrow> 'a::len word \<Rightarrow> byte list" where
  "wr_uint k w = le_bytes k (unat w)"

definition rd_array :: "nat \<Rightarrow> byte list reader" where
  "rd_array k = State (\<lambda>bs. (take k bs, drop k bs))"

lemma uint_codec:
  assumes "LENGTH('a::len) = 8 * k"
  shows "field_codec (rd_uint k :: 'a word reader) (wr_uint k) (\<lambda>_. True) k"
proof
  have p: "(256::nat) ^ k = 2 ^ LENGTH('a)" by (simp add: assms power_mult)
  show "run_state (rd_uint k) (wr_uint k x @ rest) = (x, rest)" for x :: "'a word" and rest
    using unsigned_less [of x, where ?'a = nat] by (simp add: rd_uint_def wr_uint_def le_val_bytes p)
  show "wr_uint k (fst (run_state (rd_uint k :: 'a word reader) bs)) @
      snd (run_state (rd_uint k :: 'a word reader) bs) = bs \<and> True" if "k \<le> length bs" for bs
  proof -
    have l: "length (take k bs) = k" using that by simp
    have "le_val (take k bs) < 2 ^ LENGTH('a)"
      using le_val_less [of "take k bs"] l p by simp
    then have "unat (of_nat (le_val (take k bs)) :: 'a word) = le_val (take k bs)"
      by (simp add: unsigned_of_nat take_bit_nat_eq_self)
    then show ?thesis
      using le_bytes_val [of "take k bs"] l by (simp add: rd_uint_def wr_uint_def)
  qed
qed (simp add: wr_uint_def)

lemma array_codec: "field_codec (rd_array k) id (\<lambda>b. length b = k) k"
  by unfold_locales (auto simp: rd_array_def)

interpretation u8: field_codec "rd_uint 1 :: byte reader" "wr_uint 1" "\<lambda>_. True" 1
  by (rule uint_codec) simp
interpretation u16: field_codec "rd_uint 2 :: u16 reader" "wr_uint 2" "\<lambda>_. True" 2
  by (rule uint_codec) simp
interpretation u32: field_codec "rd_uint 4 :: u32 reader" "wr_uint 4" "\<lambda>_. True" 4
  by (rule uint_codec) simp
interpretation u64: field_codec "rd_uint 8 :: u64 reader" "wr_uint 8" "\<lambda>_. True" 8
  by (rule uint_codec) simp
interpretation arr: field_codec "rd_array k" id "\<lambda>b. length b = k" k for k
  by (rule array_codec)

lemmas rd_wr_fields = u8.rd_wr u16.rd_wr u32.rd_wr u64.rd_wr arr.rd_wr [unfolded id_apply]

section \<open>\<open>binary.Read\<close> into a \<open>ChainEvent\<close>\<close>

text \<open>The fields in the order of the Go struct; the state is what is left of the buffer.\<close>

definition rd_event :: "ChainEvent reader" where
  "rd_event = do {
     ts \<leftarrow> rd_uint 8; pid \<leftarrow> rd_uint 4; ppid \<leftarrow> rd_uint 4; root \<leftarrow> rd_uint 4;
     ty \<leftarrow> rd_uint 1; ph \<leftarrow> rd_uint 1; sev \<leftarrow> rd_uint 1; pad \<leftarrow> rd_uint 1;
     comm \<leftarrow> rd_array 16; rcomm \<leftarrow> rd_array 16; path \<leftarrow> rd_array 256;
     oflags \<leftarrow> rd_uint 4; argv \<leftarrow> rd_array 96; env \<leftarrow> rd_uint 4; exec \<leftarrow> rd_uint 4;
     daddr \<leftarrow> rd_array 16; dport \<leftarrow> rd_uint 2; proto \<leftarrow> rd_uint 1; v6 \<leftarrow> rd_uint 1;
     mode \<leftarrow> rd_uint 4; pad2 \<leftarrow> rd_uint 4; mname \<leftarrow> rd_array 64; mflags \<leftarrow> rd_uint 4;
     pad3 \<leftarrow> rd_uint 4;
     State_Monad.return
       \<lparr>e_Timestamp = ts, e_Pid = pid, e_Ppid = ppid, e_RootPid = root, e_EventType = ty,
        e_Phase = ph, e_Severity = sev, e_Pad = pad, e_Comm = comm, e_RootComm = rcomm,
        e_Path = path, e_OpenFlags = oflags, e_Argv = argv, e_EnvFlags = env,
        e_ExecFlags = exec, e_Daddr = daddr, e_Dport = dport, e_Proto = proto,
        e_IsIPv6 = v6, e_NewMode = mode, e_Pad2 = pad2, e_MemfdName = mname,
        e_MemfdFlags = mflags, e_Pad3 = pad3\<rparr>
   }"

text \<open>The memory image of the C struct, field by field (no implicit padding).\<close>

definition encode_event :: "ChainEvent \<Rightarrow> byte list" where
  "encode_event e =
     wr_uint 8 (e_Timestamp e) @ wr_uint 4 (e_Pid e) @ wr_uint 4 (e_Ppid e) @
     wr_uint 4 (e_RootPid e) @ wr_uint 1 (e_EventType e) @ wr_uint 1 (e_Phase e) @
     wr_uint 1 (e_Severity e) @ wr_uint 1 (e_Pad e) @ e_Comm e @ e_RootComm e @ e_Path e @
     wr_uint 4 (e_OpenFlags e) @ e_Argv e @ wr_uint 4 (e_EnvFlags e) @
     wr_uint 4 (e_ExecFlags e) @ e_Daddr e @ wr_uint 2 (e_Dport e) @ wr_uint 1 (e_Proto e) @
     wr_uint 1 (e_IsIPv6 e) @ wr_uint 4 (e_NewMode e) @ wr_uint 4 (e_Pad2 e) @
     e_MemfdName e @ wr_uint 4 (e_MemfdFlags e) @ wr_uint 4 (e_Pad3 e)"

definition event_size :: nat where
  "event_size = 520"

datatype io_error = EOF | UnexpectedEOF

definition ReadFull :: "nat \<Rightarrow> byte list \<Rightarrow> io_error + byte list" where
  "ReadFull n raw =
     (if raw = [] \<and> n > 0 then Inl EOF
      else if length raw < n then Inl UnexpectedEOF
      else Inr (take n raw))"

definition binary_Read :: "byte list \<Rightarrow> io_error + ChainEvent" where
  "binary_Read raw =
     (case ReadFull event_size raw of
        Inl err \<Rightarrow> Inl err
      | Inr buf \<Rightarrow> Inr (fst (run_state rd_event buf)))"

lemma rd_event_encode:
  "wf_event e \<Longrightarrow> run_state rd_event (encode_event e @ rest) = (e, rest)"
  by (simp add: rd_event_def encode_event_def wf_event_def rd_wr_fields del: One_nat_def)

lemma length_encode_event: "wf_event e \<Longrightarrow> length (encode_event e) = event_size"
  by (simp add: encode_event_def wf_event_def wr_uint_def event_size_def)

text \<open>The field at a fixed offset of the buffer, as \<open>chainscope.h\<close> tabulates them.\<close>

definition word_at :: "nat \<Rightarrow> nat \<Rightarrow> byte list \<Rightarrow> 'a::len word" where
  "word_at k off bs = of_nat (le_val (take k (drop off bs)))"

definition bytes_at :: "nat \<Rightarrow> nat \<Rightarrow> byte list \<Rightarrow> byte list" where
  "bytes_at k off bs = take k (drop off bs)"

lemma run_rd_uint: "run_state (rd_uint k) (drop off bs) = (word_at k off bs, drop (k + off) bs)"
  by (simp add: rd_uint_def word_at_def)

lemma run_rd_array: "run_state (rd_array k) (drop off bs) = (bytes_at k off bs, drop (k + off) bs)"
  by (simp add: rd_array_def bytes_at_def)

lemma rd_event_offsets:
  "fst (run_state rd_event bs) =
     \<lparr>e_Timestamp = word_at 8 0 bs, e_Pid = word_at 4 8 bs, e_Ppid = word_at 4 12 bs,
      e_RootPid = word_at 4 16 bs, e_EventType = word_at 1 20 bs, e_Phase = word_at 1 21 bs,
      e_Severity = word_at 1 22 bs, e_Pad = word_at 1 23 bs, e_Comm = bytes_at 16 24 bs,
      e_RootComm = bytes_at 16 40 bs, e_Path = bytes_at 256 56 bs,
      e_OpenFlags = word_at 4 312 bs, e_Argv = bytes_at 96 316 bs,
      e_EnvFlags = word_at 4 412 bs, e_ExecFlags = word_at 4 416 bs,
      e_Daddr = bytes_at 16 420 bs, e_Dport = word_at 2 436 bs, e_Proto = word_at 1 438 bs,
      e_IsIPv6 = word_at 1 439 bs, e_NewMode = word_at 4 440 bs, e_Pad2 = word_at 4 444 bs,
      e_MemfdName = bytes_at 64 448 bs, e_MemfdFlags = word_at 4 512 bs,
      e_Pad3 = word_at 4 516 bs\<rparr>" (is "_ = ?r")
proof -
  have "fst (run_state rd_event (drop 0 bs)) = ?r"
    unfolding rd_event_def
    by (simp only: State_Monad.run_state_bind State_Monad.run_state_return run_rd_uint run_rd_array
        prod.case fst_conv) simp
  then show ?thesis by simp
qed

lemma length_bytes_at [simp]: "k + off \<le> length bs \<Longrightarrow> length (bytes_at k off bs) = k"
  by (simp add: bytes_at_def)

lemma rd_event_wf: "length bs = event_size \<Longrightarrow> wf_event (fst (run_state rd_event bs))"
  by (simp add: rd_event_offsets wf_event_def event_size_def)

text \<open>Writing back the field at an offset restores the bytes there.\<close>

lemma wr_word_at:
  "8 + off \<le> length bs \<Longrightarrow> wr_uint 8 (word_at 8 off bs :: u64) = bytes_at 8 off bs"
  "4 + off \<le> length bs \<Longrightarrow> wr_uint 4 (word_at 4 off bs :: u32) = bytes_at 4 off bs"
  "2 + off \<le> length bs \<Longrightarrow> wr_uint 2 (word_at 2 off bs :: u16) = bytes_at 2 off bs"
  "1 + off \<le> length bs \<Longrightarrow> wr_uint 1 (word_at 1 off bs :: byte) = bytes_at 1 off bs"
  using u64.wr_take [of "drop off bs"] u32.wr_take [of "drop off bs"]
    u16.wr_take [of "drop off bs"] u8.wr_take [of "drop off bs"]
  by (simp_all add: run_rd_uint bytes_at_def del: One_nat_def)

lemma bytes_at_join: "bytes_at k off bs @ drop (k + off) bs = drop off bs"
  by (simp add: bytes_at_def) (metis append_take_drop_id drop_drop)

lemma bytes_at_chain: "xs = drop (k + off) bs \<Longrightarrow> bytes_at k off bs @ xs = drop off bs"
  by (simp add: bytes_at_join)

lemma encode_rd_event:
  assumes len: "length bs = event_size"
  shows "encode_event (fst (run_state rd_event bs)) = bs"
proof -
  note l = len [unfolded event_size_def]
  have w: "wr_uint 8 (word_at 8 off bs :: u64) = bytes_at 8 off bs" if "off \<le> 512" for off
    using that l by (intro wr_word_at) simp
  have w4: "wr_uint 4 (word_at 4 off bs :: u32) = bytes_at 4 off bs" if "off \<le> 516" for off
    using that l by (intro wr_word_at) simp
  have w2: "wr_uint 2 (word_at 2 off bs :: u16) = bytes_at 2 off bs" if "off \<le> 518" for off
    using that l by (intro wr_word_at) simp
  have w1: "wr_uint 1 (word_at 1 off bs :: byte) = bytes_at 1 off bs" if "off \<le> 519" for off
    using that l by (intro wr_word_at) simp
  have last: "bytes_at 4 516 bs = drop 516 bs" by (simp add: bytes_at_def l)
  have "encode_event (fst (run_state rd_event bs)) = drop 0 bs"
    unfolding encode_event_def rd_event_offsets ChainEvent.simps
    by (simp only: w w4 w2 w1 last, (rule bytes_at_chain, simp del: One_nat_def)+)
  then show ?thesis by simp
qed

section \<open>\<open>Loader.ReadEvent\<close>, \<open>SeedPID\<close>, \<open>DroppedEvents\<close>\<close>

text \<open>What \<open>ringbuf.Reader.Read\<close> of the eBPF library returns.\<close>

datatype ring_result = RingClosed | RingFailed string | RingRecord "byte list"

datatype loader_error = ReadingRing string | DecodingEvent io_error

definition ReadEvent :: "ring_result \<Rightarrow> loader_error + ChainEvent option" where
  "ReadEvent res =
     (case res of
        RingClosed \<Rightarrow> Inr None
      | RingFailed err \<Rightarrow> Inl (ReadingRing err)
      | RingRecord raw \<Rightarrow>
          (case binary_Read raw of
             Inl err \<Rightarrow> Inl (DecodingEvent err)
           | Inr evt \<Rightarrow> Inr (Some evt)))"

text \<open>The value of the BPF map \<open>proc_tree\<close> (\<open>chainscopeProcInfo\<close>).\<close>

record ProcInfo =
  pi_Ppid :: u32
  pi_RootPid :: u32
  pi_Phase :: byte
  pi_Comm :: "byte list"
  pi_RootComm :: "byte list"

definition zero_array :: "nat \<Rightarrow> byte list" where
  "zero_array n = replicate n 0"

text \<open>The loop \<open>for i, c := range b { info.Comm[i] = int8(c); info.RootComm[i] = int8(c) }\<close>.\<close>

fun seed_loop :: "nat \<Rightarrow> byte list \<Rightarrow> ProcInfo \<Rightarrow> ProcInfo" where
  "seed_loop i [] info = info"
| "seed_loop i (c # b) info =
     seed_loop (Suc i) b
       (info\<lparr>pi_Comm := (pi_Comm info)[i := c], pi_RootComm := (pi_RootComm info)[i := c]\<rparr>)"

definition seed_info :: "u32 \<Rightarrow> string \<Rightarrow> ProcInfo" where
  "seed_info pid comm =
     (let b = bytes_of_string comm; b = (if length b > 15 then take 15 b else b)
      in seed_loop 0 b
        \<lparr>pi_Ppid = 0, pi_RootPid = pid, pi_Phase = 0, pi_Comm = zero_array 16,
         pi_RootComm = zero_array 16\<rparr>)"

text \<open>\<open>put\<close> is the map update of the eBPF library: the error it returns, if any.\<close>

definition SeedPID ::
  "(u32 \<Rightarrow> ProcInfo \<Rightarrow> string option) \<Rightarrow> u32 \<Rightarrow> string \<Rightarrow> string option" where
  "SeedPID put pid comm = put pid (seed_info pid comm)"

text \<open>\<open>drop_count\<close> is \<open>None\<close> for an older object file; a lookup may fail.\<close>

definition DroppedEvents :: "(u32 \<Rightarrow> string + u64) option \<Rightarrow> u64" where
  "DroppedEvents drop_count =
     (case drop_count of
        None \<Rightarrow> 0
      | Some lookup \<Rightarrow> (case lookup 0 of Inl err \<Rightarrow> 0 | Inr val \<Rightarrow> val))"

lemma seed_loop_fields:
  "pi_Ppid (seed_loop i b info) = pi_Ppid info"
  "pi_RootPid (seed_loop i b info) = pi_RootPid info"
  "pi_Phase (seed_loop i b info) = pi_Phase info"
  by (induction b arbitrary: i info) auto

lemma list_update_take_drop:
  "i < length xs \<Longrightarrow> take (Suc i) (xs[i := c]) = take i xs @ [c]"
  by (simp add: take_Suc_conv_app_nth)

lemma seed_loop_comm:
  assumes "i + length b \<le> length (pi_Comm info)" "pi_RootComm info = pi_Comm info"
  shows "pi_Comm (seed_loop i b info) =
           take i (pi_Comm info) @ b @ drop (i + length b) (pi_Comm info)"
    and "pi_RootComm (seed_loop i b info) = pi_Comm (seed_loop i b info)"
  using assms
proof (induction b arbitrary: i info)
  case Nil
  { case 1 then show ?case by simp
  next case 2 then show ?case by simp }
next
  case (Cons c b)
  { case 1 with Cons.IH(1) show ?case by (simp add: list_update_take_drop)
  next case 2 with Cons.IH(2) show ?case by simp }
qed

text \<open>The seeded name is the first 15 bytes, padded with NULs to 16.\<close>

lemma seed_info_comm:
  "pi_Comm (seed_info pid comm) =
     (let b = take 15 (bytes_of_string comm) in b @ replicate (16 - length b) 0)"
  "pi_RootComm (seed_info pid comm) = pi_Comm (seed_info pid comm)"
  by (auto simp: seed_info_def Let_def seed_loop_comm zero_array_def min_def)

section \<open>Properties of the boundary\<close>

lemma binary_Read_event: "binary_Read raw = Inr e \<longleftrightarrow> wf_event e \<and> prefix (encode_event e) raw"
proof
  assume r: "binary_Read raw = Inr e"
  then have l: "event_size \<le> length raw"
    by (auto simp: binary_Read_def ReadFull_def split: if_splits)
  then have "ReadFull event_size raw = Inr (take event_size raw)"
    by (auto simp: ReadFull_def event_size_def)
  with r have e: "e = fst (run_state rd_event (take event_size raw))" by (simp add: binary_Read_def)
  have t: "length (take event_size raw) = event_size" using l by simp
  show "wf_event e \<and> prefix (encode_event e) raw"
    using rd_event_wf [OF t] encode_rd_event [OF t] e by (simp add: take_is_prefix)
next
  assume "wf_event e \<and> prefix (encode_event e) raw"
  then obtain r where e: "wf_event e" "raw = encode_event e @ r" by (auto simp: prefix_def)
  have l: "length (encode_event e) = event_size" using e(1) by (rule length_encode_event)
  then have "ReadFull event_size raw = Inr (encode_event e)"
    by (auto simp: ReadFull_def e(2) event_size_def)
  with rd_event_encode [OF e(1), of "[]"] show "binary_Read raw = Inr e"
    by (simp add: binary_Read_def)
qed

lemma binary_Read_error:
  "binary_Read raw = Inl err \<longleftrightarrow>
   length raw < event_size \<and> err = (if raw = [] then EOF else UnexpectedEOF)"
  by (auto simp: binary_Read_def ReadFull_def event_size_def split: if_splits)

lemma ReadEvent_event:
  "ReadEvent res = Inr (Some e) \<longleftrightarrow> (\<exists>raw. res = RingRecord raw \<and> binary_Read raw = Inr e)"
  by (auto simp: ReadEvent_def split: ring_result.splits sum.splits)

lemma ReadEvent_wf: "ReadEvent res = Inr (Some e) \<Longrightarrow> wf_event e"
  by (auto simp: ReadEvent_event binary_Read_event)

lemma ReadEvent_encoded: "wf_event e \<Longrightarrow> ReadEvent (RingRecord (encode_event e)) = Inr (Some e)"
  by (simp add: ReadEvent_event binary_Read_event)

text \<open>
  C13. Decoding is the inverse of the kernel's layout: \<open>ReadEvent\<close> returns the event \<open>e\<close> exactly for
  the records that begin with the memory image of \<open>e\<close>, and what it returns always has arrays of
  the declared sizes. So no record decodes to two events, and every event the kernel can write
  is read back, whatever follows it in the record.
\<close>

theorem ReadEvent_decodes:
  "ReadEvent (RingRecord raw) = Inr (Some e) \<longleftrightarrow> wf_event e \<and> prefix (encode_event e) raw"
  by (simp add: ReadEvent_event binary_Read_event)

text \<open>
  The other outcomes of \<open>ReadEvent\<close>, and only these: no event when the ring is closed, the
  reader's error passed on, and a decoding error exactly for a record shorter than the struct
  (\<open>EOF\<close> when it is empty, \<open>UnexpectedEOF\<close> otherwise). A record that is long enough never fails.
\<close>

theorem ReadEvent_errors:
  "(ReadEvent res = Inr None \<longleftrightarrow> res = RingClosed) \<and>
   (ReadEvent res = Inl err \<longleftrightarrow>
      (\<exists>msg. res = RingFailed msg \<and> err = ReadingRing msg) \<or>
      (\<exists>raw. res = RingRecord raw \<and> length raw < event_size \<and>
         err = DecodingEvent (if raw = [] then EOF else UnexpectedEOF)))"
proof (cases res)
  case (RingRecord raw)
  then show ?thesis
    using binary_Read_error [of raw "if raw = [] then EOF else UnexpectedEOF"]
      binary_Read_error [of raw "projl (binary_Read raw)"]
    by (cases "binary_Read raw") (auto simp: ReadEvent_def)
qed (auto simp: ReadEvent_def)

text \<open>
  C39. The offsets of \<open>chainscope.h\<close>: every field of a decoded event is the field of the record at the
  offset the header tabulates, little-endian, with nothing left out (the last one ends at 520).
\<close>

theorem ReadEvent_offsets:
  assumes "ReadEvent (RingRecord raw) = Inr (Some e)"
  shows "let bs = take 520 raw in
    e = \<lparr>e_Timestamp = word_at 8 0 bs, e_Pid = word_at 4 8 bs, e_Ppid = word_at 4 12 bs,
      e_RootPid = word_at 4 16 bs, e_EventType = word_at 1 20 bs, e_Phase = word_at 1 21 bs,
      e_Severity = word_at 1 22 bs, e_Pad = word_at 1 23 bs, e_Comm = bytes_at 16 24 bs,
      e_RootComm = bytes_at 16 40 bs, e_Path = bytes_at 256 56 bs,
      e_OpenFlags = word_at 4 312 bs, e_Argv = bytes_at 96 316 bs,
      e_EnvFlags = word_at 4 412 bs, e_ExecFlags = word_at 4 416 bs,
      e_Daddr = bytes_at 16 420 bs, e_Dport = word_at 2 436 bs, e_Proto = word_at 1 438 bs,
      e_IsIPv6 = word_at 1 439 bs, e_NewMode = word_at 4 440 bs, e_Pad2 = word_at 4 444 bs,
      e_MemfdName = bytes_at 64 448 bs, e_MemfdFlags = word_at 4 512 bs,
      e_Pad3 = word_at 4 516 bs\<rparr>"
proof -
  have b: "wf_event e" "prefix (encode_event e) raw"
    using assms by (auto simp: ReadEvent_event binary_Read_event)
  have "take 520 raw = encode_event e"
    using b(2) length_encode_event [OF b(1)]
    by (auto simp: prefix_def event_size_def)
  moreover have "fst (run_state rd_event (encode_event e)) = e"
    using rd_event_encode [OF b(1), of "[]"] by simp
  ultimately show ?thesis by (simp only: Let_def rd_event_offsets [symmetric])
qed

theorem ReadEvent_offsets_witness:
  "word_at 2 436 (encode_event (zero_event\<lparr>e_Dport := 443\<rparr>)) = (443 :: u16)"
proof -
  let ?e = "zero_event\<lparr>e_Dport := 443\<rparr>"
  have wf: "wf_event ?e" by (simp add: wf_event_def zero_event_def)
  have l: "take 520 (encode_event ?e) = encode_event ?e"
    using length_encode_event [OF wf] by (simp add: event_size_def)
  have "ReadEvent (RingRecord (encode_event ?e)) = Inr (Some ?e)"
    using wf by (auto simp: ReadEvent_event binary_Read_event)
  from arg_cong [OF ReadEvent_offsets [OF this, unfolded Let_def l], of e_Dport]
  show ?thesis by simp
qed

text \<open>
  Seeding the monitored process: whatever the name, the entry put into the kernel's map is its
  own root with no parent and an unknown phase, both names are 16 bytes with a NUL at the end,
  and read as C strings they are the first 15 bytes of the name; the result is that of the map
  update.
\<close>

theorem SeedPID_entry:
  assumes "CHR 0x00 \<notin> set comm"
  shows "\<exists>info. SeedPID put pid comm = put pid info \<and>
    pi_Ppid info = 0 \<and> pi_RootPid info = pid \<and> pi_Phase info = PhaseUnknown \<and>
    length (pi_Comm info) = 16 \<and> last (pi_Comm info) = 0 \<and>
    cstring (pi_Comm info) = take 15 comm \<and> pi_RootComm info = pi_Comm info"
proof (intro exI conjI)
  let ?b = "bytes_of_string (take 15 comm)"
  have t: "take 15 (bytes_of_string comm) = ?b" by (simp add: bytes_of_string_def take_map)
  have "0 < 16 - length ?b" by simp
  then obtain k where k: "16 - length ?b = Suc k" using gr0_conv_Suc by blast
  have c: "pi_Comm (seed_info pid comm) = ?b @ 0 # replicate k 0"
    using k by (simp add: seed_info_comm Let_def t)
  show "SeedPID put pid comm = put pid (seed_info pid comm)" by (simp add: SeedPID_def)
  show "pi_Ppid (seed_info pid comm) = 0" "pi_RootPid (seed_info pid comm) = pid"
    "pi_Phase (seed_info pid comm) = PhaseUnknown"
    by (simp_all add: seed_info_def seed_loop_fields Let_def)
  show "length (pi_Comm (seed_info pid comm)) = 16" using k by (simp add: c)
  show "last (pi_Comm (seed_info pid comm)) = 0" by (simp add: c)
  show "cstring (pi_Comm (seed_info pid comm)) = take 15 comm"
    unfolding c by (rule cstring_stored) (use assms in \<open>auto dest: in_set_takeD\<close>)
  show "pi_RootComm (seed_info pid comm) = pi_Comm (seed_info pid comm)" by (rule seed_info_comm)
qed

theorem SeedPID_entry_witness:
  "SeedPID (\<lambda>_ info. Some (cstring (pi_Comm info))) 7 ''chromium-browser'' = Some ''chromium-browse''"
proof -
  have "CHR 0x00 \<notin> set ''chromium-browser''" by simp
  from SeedPID_entry [OF this, of "\<lambda>_ info. Some (cstring (pi_Comm info))" 7] show ?thesis by auto
qed

end
