(* ===== verification/GoNet.thy ===== *)
theory GoNet
  imports GoUtf8
begin

text \<open>
  The part of the Go packages \<open>net\<close> and \<open>net/netip\<close> that the program relies on: a \<open>net.IP\<close> is a
  byte slice (4 or 16 bytes), \<open>To4\<close>, \<open>String\<close>, \<open>ParseCIDR\<close> with the IPv4 and IPv6 parsers,
  \<open>CIDRMask\<close>, and \<open>IPNet.Contains\<close>. The main facts: \<open>Contains\<close> of a parsed network is equality of
  the leading address bits, and the printed form of an address determines the address.
\<close>

type_synonym IP = "byte list"

definition v4InV6Prefix :: "byte list" where
  "v4InV6Prefix = replicate 10 0 @ [0xFF, 0xFF]"

definition To4 :: "IP \<Rightarrow> IP option" where
  "To4 ip =
     (if length ip = 4 then Some ip
      else if length ip = 16 \<and> take 12 ip = v4InV6Prefix then Some (drop 12 ip)
      else None)"

record IPNet =
  ipnet_IP :: IP
  ipnet_Mask :: "byte list"

section \<open>Networks\<close>

text \<open>\<open>CIDRMask(ones, 8 * l)\<close>: full bytes, one partial byte, zero bytes.\<close>

fun cidr_mask :: "nat \<Rightarrow> nat \<Rightarrow> byte list" where
  "cidr_mask 0 n = []"
| "cidr_mask (Suc l) n =
     (if n \<ge> 8 then 0xFF # cidr_mask l (n - 8) else NOT (drop_bit n 0xFF) # cidr_mask l 0)"

text \<open>\<open>networkNumberAndMask\<close>; \<open>None\<close> is the pair \<open>nil, nil\<close>.\<close>

definition networkNumberAndMask :: "IPNet \<Rightarrow> (IP \<times> byte list) option" where
  "networkNumberAndMask n =
     (case (case To4 (ipnet_IP n) of
              Some ip \<Rightarrow> Some ip
            | None \<Rightarrow> (if length (ipnet_IP n) = 16 then Some (ipnet_IP n) else None)) of
        None \<Rightarrow> None
      | Some ip \<Rightarrow>
          (let m = ipnet_Mask n in
           if length m = 4 then (if length ip = 4 then Some (ip, m) else None)
           else if length m = 16 then Some (ip, if length ip = 4 then drop 12 m else m)
           else None))"

fun masked_eq :: "byte list \<Rightarrow> byte list \<Rightarrow> byte list \<Rightarrow> bool" where
  "masked_eq (a # as) (m # ms) (b # bs) \<longleftrightarrow> a AND m = b AND m \<and> masked_eq as ms bs"
| "masked_eq _ _ _ \<longleftrightarrow> True"

definition IPNet_Contains :: "IPNet \<Rightarrow> IP \<Rightarrow> bool" where
  "IPNet_Contains n ip =
     (let ip = (case To4 ip of Some x \<Rightarrow> x | None \<Rightarrow> ip);
          (nn, m) = (case networkNumberAndMask n of Some p \<Rightarrow> p | None \<Rightarrow> ([], []))
      in length ip = length nn \<and> masked_eq nn m ip)"

section \<open>Parsing\<close>

definition is_digit :: "char \<Rightarrow> bool" where
  "is_digit c \<longleftrightarrow> 48 \<le> ord c \<and> ord c \<le> 57"

text \<open>\<open>parseIPv4Fields\<close>: \<open>dot\<close> says that a field has just begun, \<open>dl\<close> counts its digits.\<close>

fun ipv4_fields :: "bool \<Rightarrow> nat \<Rightarrow> nat \<Rightarrow> nat list \<Rightarrow> string \<Rightarrow> nat list option" where
  "ipv4_fields dot val dl fs [] = (if length fs < 3 then None else Some (fs @ [val]))"
| "ipv4_fields dot val dl fs (c # s) =
     (if is_digit c then
        (if dl = 1 \<and> val = 0 then None
         else let v = val * 10 + (ord c - 48) in
           if v > 255 then None else ipv4_fields False v (Suc dl) fs s)
      else if c = CHR ''.'' then
        (if dot \<or> s = [] then None
         else if length fs = 3 then None
         else ipv4_fields True 0 0 (fs @ [val]) s)
      else None)"

definition parse_ipv4 :: "string \<Rightarrow> IP option" where
  "parse_ipv4 s = map_option (map of_nat) (ipv4_fields True 0 0 [] s)"

definition hex_val :: "char \<Rightarrow> nat option" where
  "hex_val c =
     (if is_digit c then Some (ord c - 48)
      else if 97 \<le> ord c \<and> ord c \<le> 102 then Some (ord c - 87)
      else if 65 \<le> ord c \<and> ord c \<le> 70 then Some (ord c - 55)
      else None)"

definition hex_num :: "string \<Rightarrow> nat" where
  "hex_num ds = foldl (\<lambda>acc c. acc * 16 + the (hex_val c)) 0 ds"

definition ipv6_finish :: "IP \<Rightarrow> nat option \<Rightarrow> string \<Rightarrow> IP option" where
  "ipv6_finish acc ell s =
     (if s \<noteq> [] then None
      else if length acc < 16 then
        (case ell of
           None \<Rightarrow> None
         | Some e \<Rightarrow> Some (take e acc @ replicate (16 - length acc) 0 @ drop e acc))
      else (case ell of None \<Rightarrow> Some acc | Some _ \<Rightarrow> None))"

text \<open>The loop of \<open>parseIPv6\<close>: \<open>acc\<close> holds the bytes so far, \<open>ell\<close> the position of the ellipsis.\<close>

function ipv6_loop :: "IP \<Rightarrow> nat option \<Rightarrow> string \<Rightarrow> IP option" where
  "ipv6_loop acc ell s =
     (if 16 \<le> length acc then ipv6_finish acc ell s
      else let ds = takeWhile (\<lambda>c. hex_val c \<noteq> None) s; rest = drop (length ds) s in
      if ds = [] \<or> length ds > 4 then None
      else if rest \<noteq> [] \<and> hd rest = CHR ''.'' then
        (if ell = None \<and> length acc \<noteq> 12 then None
         else if length acc + 4 > 16 then None
         else case parse_ipv4 s of None \<Rightarrow> None | Some f \<Rightarrow> ipv6_finish (acc @ f) ell [])
      else let acc' = acc @ [of_nat (hex_num ds div 256), of_nat (hex_num ds mod 256)] in
      if rest = [] then ipv6_finish acc' ell []
      else if hd rest \<noteq> CHR '':'' then None
      else if tl rest = [] then None
      else let s2 = tl rest in
      if hd s2 = CHR '':'' then
        (if ell \<noteq> None then None
         else if tl s2 = [] then ipv6_finish acc' (Some (length acc')) []
         else ipv6_loop acc' (Some (length acc')) (tl s2))
      else ipv6_loop acc' ell s2)"
  by pat_completeness auto
termination
  by (relation "measure (\<lambda>(acc, ell, s). length s)")
    (auto simp: drop_tl [symmetric] drop_Suc [symmetric] takeWhile_eq_Nil_iff intro: diff_less)

declare ipv6_loop.simps [simp del]

text \<open>\<open>parseIPv6\<close> of an address with a zone is rejected by \<open>ParseCIDR\<close> in every case.\<close>

definition parse_ipv6 :: "string \<Rightarrow> IP option" where
  "parse_ipv6 s =
     (if CHR ''%'' \<in> set s then None
      else if HasPrefix s ''::'' then
        (if drop 2 s = [] then Some (replicate 16 0) else ipv6_loop [] (Some 0) (drop 2 s))
      else ipv6_loop [] None s)"

text \<open>\<open>netip.ParseAddr\<close>: the first of \<open>.\<close>, \<open>:\<close>, \<open>%\<close> decides; the result tells IPv4 from IPv6.\<close>

definition ParseAddr :: "string \<Rightarrow> IP option" where
  "ParseAddr s =
     (case find (\<lambda>c. c \<in> {CHR ''.'', CHR '':'', CHR ''%''}) s of
        None \<Rightarrow> None
      | Some c \<Rightarrow> (if c = CHR ''.'' then parse_ipv4 s
                  else if c = CHR '':'' then parse_ipv6 s else None))"

fun dtoi :: "nat \<Rightarrow> string \<Rightarrow> nat option" where
  "dtoi n [] = Some n"
| "dtoi n (c # s) =
     (if is_digit c then
        (let n' = n * 10 + (ord c - 48) in if n' \<ge> 0xFFFFFF then None else dtoi n' s)
      else None)"

text \<open>\<open>net.ParseCIDR\<close>, the network part; \<open>None\<close> is the error \<open>invalid CIDR address\<close>.\<close>

definition ParseCIDR :: "string \<Rightarrow> IPNet option" where
  "ParseCIDR s =
     (if CHR ''/'' \<notin> set s then None
      else let addr = takeWhile (\<lambda>c. c \<noteq> CHR ''/'') s;
               msk = tl (dropWhile (\<lambda>c. c \<noteq> CHR ''/'') s) in
      case ParseAddr addr of
        None \<Rightarrow> None
      | Some ip \<Rightarrow>
          (case (if msk = [] then None else dtoi 0 msk) of
             None \<Rightarrow> None
           | Some n \<Rightarrow>
               (if n > 8 * length ip then None
                else let m = cidr_mask (length ip) n in
                Some \<lparr>ipnet_IP = map2 (AND) ip m, ipnet_Mask = m\<rparr>)))"

section \<open>Printing\<close>

text \<open>\<open>IP.String\<close>: dotted decimal, or RFC 5952 with the first longest run of zero groups elided.\<close>

definition ipv4_str :: "IP \<Rightarrow> string" where
  "ipv4_str ip = Join ''.'' (map (\<lambda>b. dec_str (unat b)) ip)"

fun groups16 :: "IP \<Rightarrow> nat list" where
  "groups16 (a # b # r) = (unat a * 256 + unat b) # groups16 r"
| "groups16 _ = []"

text \<open>The search for the run: \<open>zs\<close>, \<open>ze\<close> start at 255, a run replaces a strictly shorter one.\<close>

fun zero_scan :: "nat list \<Rightarrow> nat \<Rightarrow> nat \<Rightarrow> nat \<times> nat \<Rightarrow> nat \<times> nat" where
  "zero_scan gs i 0 (zs, ze) = (zs, ze)"
| "zero_scan gs i (Suc n) (zs, ze) =
     (let l = length (takeWhile (\<lambda>g. g = 0) (drop i gs)) in
      zero_scan gs (Suc i) n (if l \<ge> 2 \<and> l > ze - zs then (i, i + l) else (zs, ze)))"

definition ipv6_str :: "IP \<Rightarrow> string" where
  "ipv6_str ip =
     (let gs = groups16 ip; (zs, ze) = zero_scan gs 0 8 (255, 255) in
      if zs = 255 then Join '':'' (map hex_str gs)
      else Join '':'' (map hex_str (take zs gs)) @ ''::'' @ Join '':'' (map hex_str (drop ze gs)))"

definition IP_String :: "IP \<Rightarrow> string" where
  "IP_String ip =
     (if ip = [] then ''<nil>''
      else if length ip \<noteq> 4 \<and> length ip \<noteq> 16 then ''?'' @ fmt_x_bytes ip
      else case To4 ip of Some p4 \<Rightarrow> ipv4_str p4 | None \<Rightarrow> ipv6_str ip)"

section \<open>Membership is equality of leading bits\<close>

definition byte_bits :: "byte \<Rightarrow> bool list" where
  "byte_bits b = map (bit b) [7, 6, 5, 4, 3, 2, 1, 0]"

definition ip_bits :: "IP \<Rightarrow> bool list" where
  "ip_bits ip = concat (map byte_bits ip)"

lemma length_byte_bits [simp]: "length (byte_bits b) = 8"
  by (simp add: byte_bits_def)

lemma byte_eq_bits: "(a :: byte) = b \<longleftrightarrow> (\<forall>k \<in> {0, 1, 2, 3, 4, 5, 6, 7}. bit a k = bit b k)"
proof
  assume h: "\<forall>k \<in> {0, 1, 2, 3, 4, 5, 6, 7}. bit a k = bit b k"
  show "a = b"
  proof (rule bit_word_eqI)
    fix k assume "k < LENGTH(8)"
    then have "k \<in> {0, 1, 2, 3, 4, 5, 6, 7}" by auto
    with h show "bit a k = bit b k" by blast
  qed
qed simp

lemma byte_bits_inject [simp]: "byte_bits a = byte_bits b \<longleftrightarrow> a = b"
  using byte_eq_bits [of a b] by (auto simp: byte_bits_def)

lemma byte_mask_bits:
  assumes "n < 8"
  shows "a AND NOT (drop_bit n 0xFF) = b AND NOT (drop_bit n (0xFF :: byte)) \<longleftrightarrow>
    take n (byte_bits a) = take n (byte_bits b)"
proof -
  consider "n = 0" | "n = 1" | "n = 2" | "n = 3" | "n = 4" | "n = 5" | "n = 6" | "n = 7"
    using assms by linarith
  then show ?thesis
    by cases (simp_all add: byte_eq_bits [of "a AND _"] byte_bits_def bit_simps, blast+)
qed

lemma masked_eq_bits:
  "length as = length bs \<Longrightarrow>
   masked_eq as (cidr_mask (length as) n) bs \<longleftrightarrow> take n (ip_bits as) = take n (ip_bits bs)"
proof (induction as bs arbitrary: n rule: list_induct2)
  case Nil
  then show ?case by (simp add: ip_bits_def)
next
  case (Cons a as b bs)
  show ?case
  proof (cases "8 \<le> n")
    case True
    have "a AND 0xFF = a" "b AND 0xFF = b"
      by (simp_all add: byte_eq_bits bit_simps)
    with True Cons.IH [of "n - 8"] show ?thesis
      by (simp add: ip_bits_def)
  next
    case False
    with Cons.IH [of 0] byte_mask_bits [of n a b] show ?thesis
      by (simp add: ip_bits_def)
  qed
qed


lemma length_cidr_mask [simp]: "length (cidr_mask l n) = l"
  by (induction l arbitrary: n) auto

lemma masked_eq_masked:
  "length as = length m \<Longrightarrow> length bs = length m \<Longrightarrow>
   masked_eq (map2 (AND) as m) m bs \<longleftrightarrow> masked_eq as m bs"
proof (induction m arbitrary: as bs)
  case Nil
  then show ?case by simp
next
  case (Cons x m)
  then show ?case
    by (cases as; cases bs) (auto simp: and.assoc)
qed

lemma To4_len: "To4 ip = Some p \<Longrightarrow> length p = 4"
  by (auto simp: To4_def split: if_splits)

lemma To4_4 [simp]: "length p = 4 \<Longrightarrow> To4 p = Some p"
  by (simp add: To4_def)

text \<open>Membership in an IPv4 network: the leading \<open>n\<close> bits agree.\<close>

lemma Contains_v4:
  assumes "length base = 4" "m = cidr_mask 4 n"
  shows "IPNet_Contains \<lparr>ipnet_IP = map2 (AND) base m, ipnet_Mask = m\<rparr> ip \<longleftrightarrow>
    (\<exists>p. To4 ip = Some p \<and> take n (ip_bits p) = take n (ip_bits base))"
proof (cases "To4 ip")
  case None
  then have "length ip \<noteq> 4" by (auto simp: To4_def)
  with None assms show ?thesis
    by (simp add: IPNet_Contains_def networkNumberAndMask_def Let_def)
next
  case (Some p)
  have "length p = 4" using Some by (rule To4_len)
  with Some assms show ?thesis
    using masked_eq_masked [of base m p] masked_eq_bits [of base p n]
    by (auto simp: IPNet_Contains_def networkNumberAndMask_def Let_def)
qed

lemma parse_ipv4_len:
  "ipv4_fields d v l fs s = Some r \<Longrightarrow> length fs \<le> 3 \<Longrightarrow> length r = 4"
  by (induction d v l fs s rule: ipv4_fields.induct) (auto simp: Let_def split: if_splits)

text \<open>\<open>ParseCIDR\<close> accepts \<open>a/n\<close> for an IPv4 address \<open>a\<close> and \<open>n \<le> 32\<close>.\<close>

lemma ParseCIDR_v4:
  assumes "ParseCIDR s = Some net" "length (ipnet_Mask net) = 4"
  obtains base n where "length base = 4" "n \<le> 32"
    "ipnet_Mask net = cidr_mask 4 n" "ipnet_IP net = map2 (AND) base (cidr_mask 4 n)"
    "ParseAddr (takeWhile (\<lambda>c. c \<noteq> CHR ''/'') s) = Some base"
    "dtoi 0 (tl (dropWhile (\<lambda>c. c \<noteq> CHR ''/'') s)) = Some n"
  using assms
  by (auto simp: ParseCIDR_def Let_def split: if_splits option.splits)

lemma digit_char_is_digit: "d < 10 \<Longrightarrow> is_digit (digit_char d)"
  by (simp add: is_digit_def digit_char_def ord_def of_char_of)

lemma itoa10_digits: "c \<in> set (itoa 10 n) \<Longrightarrow> is_digit c"
proof (induction "10::nat" n rule: itoa.induct)
  case (1 n)
  then show ?case
    by (subst (asm) itoa.simps) (auto simp: digit_char_is_digit split: if_splits)
qed

lemma dec_str_digits: "c \<in> set (dec_str n) \<Longrightarrow> is_digit c"
  by (simp add: dec_str_def itoa10_digits)

lemma ipv4_str_inject:
  assumes "length p = 4" "length q = 4" "ipv4_str p = ipv4_str q"
  shows "p = q"
proof -
  let ?f = "\<lambda>b :: byte. dec_str (unat b)"
  have nodot: "\<forall>x \<in> set (map ?f r). CHR ''.'' \<notin> set x" for r
    using dec_str_digits by (fastforce simp: is_digit_def ord_def)
  have "Split (CHR ''.'') (ipv4_str r) = map ?f r" if "length r = 4" for r
    using that nodot [of r] unfolding ipv4_str_def by (intro Split_Join) auto
  with assms have "map ?f p = map ?f q" by metis
  then show ?thesis
    by (rule map_injective) (auto simp: inj_def word_unat_eq_iff)
qed


section \<open>The printed form determines the address\<close>

definition plain_parts :: "string list \<Rightarrow> bool" where
  "plain_parts ps \<longleftrightarrow> (\<forall>p \<in> set ps. p \<noteq> [] \<and> CHR '':'' \<notin> set p)"

lemma Split_append: "Split c (x @ c # y) = Split c x @ Split c y"
  by (induction x) (auto split: list.splits)

lemma Split_Join_plain:
  "plain_parts L \<Longrightarrow> Split (CHR '':'') (Join '':'' L) = (if L = [] then [[]] else L)"
  using Split_Join [of L "CHR '':''"] by (auto simp: plain_parts_def)

lemma first_split:
  assumes "x \<notin> set L" "x \<notin> set L'"
  shows "L @ x # R = L' @ x # R' \<longleftrightarrow> L = L' \<and> R = R'"
proof
  assume eq: "L @ x # R = L' @ x # R'"
  have "takeWhile (\<lambda>y. y \<noteq> x) (K @ x # S) = K" if "x \<notin> set K" for K S
    using that by (subst takeWhile_append2) auto
  then have "L = L'" using eq assms by metis
  with eq show "L = L' \<and> R = R'" by simp
qed simp

lemma Split_ellipsis:
  assumes "plain_parts L" "plain_parts R"
  shows "Split (CHR '':'') (Join '':'' L @ ''::'' @ Join '':'' R) =
    (if L = [] then [[]] else L) @ [] # (if R = [] then [[]] else R)"
  using assms Split_append [of "CHR '':''" "Join '':'' L" "CHR '':'' # Join '':'' R"]
  by (simp add: Split_Join_plain)

lemma ellipsis_inject:
  assumes pl: "plain_parts L" "plain_parts R" "plain_parts L'" "plain_parts R'"
    and eq: "Join '':'' L @ ''::'' @ Join '':'' R = Join '':'' L' @ ''::'' @ Join '':'' R'"
  shows "L = L' \<and> R = R'"
proof -
  let ?E = "\<lambda>L :: string list. if L = [] then [[]] else L"
  have ne: "[] \<notin> set P" if "plain_parts P" for P
    using that by (auto simp: plain_parts_def)
  have sp: "?E L @ [] # ?E R = ?E L' @ [] # ?E R'"
    using Split_ellipsis pl eq by metis
  have E: "P = P'" if "?E P = ?E P'" "plain_parts P" "plain_parts P'" for P P'
    using that ne [of P] ne [of P'] by (auto split: if_splits)
  have nL: "[] \<notin> set L" "[] \<notin> set L'" using pl ne by blast+
  consider "L = []" "L' = []" | "L = []" "L' \<noteq> []" | "L \<noteq> []" "L' = []" | "L \<noteq> []" "L' \<noteq> []"
    by blast
  then show ?thesis
  proof cases
    case 4
    with sp first_split [OF nL, of "?E R" "?E R'"] E [of R R'] pl show ?thesis by simp
  qed (use sp nL E [of R R'] pl in \<open>auto simp: neq_Nil_conv\<close>)
qed

text \<open>The invariant of the search for the run of zero groups.\<close>

definition zero_run :: "nat list \<Rightarrow> nat \<times> nat \<Rightarrow> bool" where
  "zero_run gs p \<longleftrightarrow> p = (255, 255) \<or>
     (fst p < snd p \<and> snd p \<le> length gs \<and>
      gs = take (fst p) gs @ replicate (snd p - fst p) 0 @ drop (snd p) gs)"

lemma takeWhile_zeros: "takeWhile (\<lambda>g. g = 0) xs = replicate (length (takeWhile (\<lambda>g. g = (0::nat)) xs)) 0"
  by (induction xs) auto

lemma zero_run_here:
  assumes "l = length (takeWhile (\<lambda>g. g = 0) (drop i gs))" "2 \<le> l"
  shows "zero_run gs (i, i + l)"
proof -
  have "drop i gs = replicate l 0 @ drop l (drop i gs)"
    using takeWhile_zeros [of "drop i gs"] takeWhile_dropWhile_id [of "\<lambda>g. g = 0" "drop i gs"]
      dropWhile_eq_drop [of "\<lambda>g. g = 0" "drop i gs"] assms(1) by metis
  moreover have "l \<le> length gs - i" using assms(1) length_takeWhile_le [of _ "drop i gs"] by simp
  ultimately show ?thesis
    using assms(2) append_take_drop_id [of i gs] by (auto simp: zero_run_def add.commute)
qed

lemma zero_scan_run: "zero_run gs p \<Longrightarrow> zero_run gs (zero_scan gs i n p)"
  by (induction gs i n p rule: zero_scan.induct) (auto simp: Let_def zero_run_here)

lemma hex_str_plain: "plain_parts (map hex_str gs)"
proof -
  have "c \<noteq> CHR '':''" if "c \<in> set (itoa 16 n)" for c n
    using that
  proof (induction "16::nat" n rule: itoa.induct)
    case (1 n)
    have "digit_char d \<noteq> CHR '':''" if "d < 16" for d
    proof
      assume "digit_char d = CHR '':''"
      then have "ord (digit_char d) = 58" by (simp add: ord_def)
      then show False using that by (simp add: digit_char_def split: if_splits)
    qed
    moreover have "n mod 16 < 16" by simp
    ultimately have "digit_char (n mod 16) \<noteq> CHR '':''" "n < 16 \<longrightarrow> digit_char n \<noteq> CHR '':''"
      by blast+
    with 1 show ?case
      by (subst (asm) itoa.simps) (auto split: if_splits)
  qed
  then show ?thesis by (auto simp: plain_parts_def hex_str_def)
qed

lemma plain_take: "plain_parts ps \<Longrightarrow> plain_parts (take n ps)"
  and plain_drop: "plain_parts ps \<Longrightarrow> plain_parts (drop n ps)"
  by (auto simp: plain_parts_def dest: in_set_takeD in_set_dropD)

lemma groups16_inject:
  "groups16 a = groups16 b \<Longrightarrow> even (length a) \<Longrightarrow> even (length b) \<Longrightarrow> a = b"
proof (induction a arbitrary: b rule: groups16.induct)
  case (1 x y r)
  then obtain x' y' r' where b: "b = x' # y' # r'"
    by (cases b rule: groups16.cases) auto
  have lt: "unat z < 256" for z :: byte using unsigned_less [of z, where ?'a = nat] by simp
  have "unat x * 256 + unat y = unat x' * 256 + unat y'" using 1 b by simp
  then have "(unat x * 256 + unat y) div 256 = (unat x' * 256 + unat y') div 256"
    "(unat x * 256 + unat y) mod 256 = (unat x' * 256 + unat y') mod 256" by simp_all
  then have "unat x = unat x'" "unat y = unat y'" using lt [of y] lt [of y'] by simp_all
  with 1 b show ?case by (simp add: word_unat_eq_iff)
qed (erule groups16.elims [OF sym], auto)

lemma length_groups16: "length (groups16 ip) = length ip div 2"
  by (induction ip rule: groups16.induct) auto

text \<open>The eight groups can be read back from the printed form.\<close>

lemma ipv6_str_groups:
  assumes "length ip = 16" "length ip' = 16" "ipv6_str ip = ipv6_str ip'"
  shows "groups16 ip = groups16 ip'"
proof -
  let ?g = "groups16 ip" and ?g' = "groups16 ip'"
  obtain zs ze where z: "zero_scan ?g 0 8 (255, 255) = (zs, ze)" by force
  obtain zs' ze' where z': "zero_scan ?g' 0 8 (255, 255) = (zs', ze')" by force
  have zr: "zero_run ?g (zs, ze)" "zero_run ?g' (zs', ze')"
    using zero_scan_run [of ?g "(255, 255)" 0 8] zero_scan_run [of ?g' "(255, 255)" 0 8] z z'
    by (auto simp: zero_run_def)
  have len: "length ?g = 8" "length ?g' = 8" using assms by (simp_all add: length_groups16)
  let ?L = "map hex_str (take zs ?g)" and ?R = "map hex_str (drop ze ?g)"
  let ?L' = "map hex_str (take zs' ?g')" and ?R' = "map hex_str (drop ze' ?g')"
  have inj: "map hex_str a = map hex_str b \<longleftrightarrow> a = b" for a b
    by (rule inj_map_eq_map) (simp add: inj_def)
  have plain: "Split (CHR '':'') (Join '':'' (map hex_str g)) = map hex_str g" if "length g = 8" for g
    using that Split_Join_plain [OF hex_str_plain [of g]] by auto
  have nell: "Join '':'' (map hex_str g) \<noteq>
      Join '':'' (map hex_str l) @ ''::'' @ Join '':'' (map hex_str r)" if "length g = 8" for g l r
  proof
    assume "Join '':'' (map hex_str g) =
      Join '':'' (map hex_str l) @ ''::'' @ Join '':'' (map hex_str r)"
    then have "[] \<in> set (map hex_str g)"
      using plain [OF that] Split_ellipsis [OF hex_str_plain [of l] hex_str_plain [of r]] by auto
    then show False using hex_str_plain [of g] by (auto simp: plain_parts_def)
  qed
  consider "zs = 255" "zs' = 255" | "zs = 255" "zs' \<noteq> 255" | "zs \<noteq> 255" "zs' = 255"
    | "zs \<noteq> 255" "zs' \<noteq> 255" by blast
  then show ?thesis
  proof cases
    case 1
    with assms(3) z z' have "Join '':'' (map hex_str ?g) = Join '':'' (map hex_str ?g')"
      by (simp add: ipv6_str_def)
    then show ?thesis using plain len inj by metis
  next
    case 2
    with assms(3) z z' show ?thesis
      using nell [OF len(1), of "take zs' ?g'" "drop ze' ?g'"] by (simp add: ipv6_str_def Let_def)
  next
    case 3
    with assms(3) z z' show ?thesis
      using nell [OF len(2), of "take zs ?g" "drop ze ?g"] by (simp add: ipv6_str_def Let_def)
  next
    case 4
    with assms(3) z z' have "?L = ?L' \<and> ?R = ?R'"
      by (intro ellipsis_inject) (simp_all add: ipv6_str_def Let_def hex_str_plain)
    then have tk: "take zs ?g = take zs' ?g'" and dr: "drop ze ?g = drop ze' ?g'"
      by (simp_all only: inj)
    have a: "zs < ze" "ze \<le> 8" "?g = take zs ?g @ replicate (ze - zs) 0 @ drop ze ?g"
      and b: "zs' < ze'" "ze' \<le> 8" "?g' = take zs' ?g' @ replicate (ze' - zs') 0 @ drop ze' ?g'"
      using zr 4 len by (auto simp: zero_run_def)
    have "length (take zs ?g) = length (take zs' ?g')" "length (drop ze ?g) = length (drop ze' ?g')"
      using tk dr by simp_all
    then have "zs = zs'" "ze = ze'" using a(1,2) b(1,2) len by simp_all
    with a(3) b(3) tk dr show ?thesis by metis
  qed
qed

definition canonical_ip :: "IP \<Rightarrow> IP" where
  "canonical_ip ip = (case To4 ip of Some p \<Rightarrow> p | None \<Rightarrow> ip)"

lemma ipv6_str_colon:
  assumes "length ip = 16"
  shows "CHR '':'' \<in> set (ipv6_str ip)"
proof -
  obtain a b r where "groups16 ip = a # b # r"
    using length_groups16 [of ip] assms by (cases "groups16 ip"; cases "tl (groups16 ip)") auto
  then show ?thesis
    by (cases "zero_scan (groups16 ip) 0 8 (255, 255)") (simp add: ipv6_str_def Let_def)
qed

lemma ipv4_str_no_colon: "CHR '':'' \<notin> set (ipv4_str ip)"
proof -
  have "CHR '':'' \<notin> set (Join ''.'' (map (\<lambda>b. dec_str (unat b)) bs))" for bs :: "byte list"
  proof (induction bs)
    case (Cons b bs)
    have "CHR '':'' \<notin> set (dec_str (unat b))"
      using dec_str_digits [of "CHR '':''"] by (auto simp: is_digit_def ord_def)
    with Cons show ?case by (cases bs) auto
  qed simp
  then show ?thesis by (simp add: ipv4_str_def)
qed

lemma IP_String_inject:
  assumes "length ip \<in> {4, 16}" "length ip' \<in> {4, 16}" "IP_String ip = IP_String ip'"
  shows "canonical_ip ip = canonical_ip ip'"
proof (cases "To4 ip")
  case None
  then have l: "length ip = 16" using assms(1) by (auto simp: To4_def)
  then have s: "IP_String ip = ipv6_str ip" "ip \<noteq> []" using None by (auto simp: IP_String_def)
  show ?thesis
  proof (cases "To4 ip'")
    case None': None
    then have l': "length ip' = 16" using assms(2) by (auto simp: To4_def)
    then have "IP_String ip' = ipv6_str ip'" using None' by (auto simp: IP_String_def)
    with assms(3) s l l' have "groups16 ip = groups16 ip'" by (intro ipv6_str_groups) simp_all
    then have "ip = ip'" using l l' by (intro groups16_inject) simp_all
    then show ?thesis by simp
  next
    case (Some p)
    then have "IP_String ip' = ipv4_str p" using assms(2) by (auto simp: IP_String_def)
    then show ?thesis using assms(3) s ipv6_str_colon [OF l] ipv4_str_no_colon by metis
  qed
next
  case (Some p)
  then have s: "IP_String ip = ipv4_str p" using assms(1) by (auto simp: IP_String_def)
  show ?thesis
  proof (cases "To4 ip'")
    case None
    then have l': "length ip' = 16" using assms(2) by (auto simp: To4_def)
    then have "IP_String ip' = ipv6_str ip'" using None by (auto simp: IP_String_def)
    then show ?thesis using assms(3) s ipv6_str_colon [OF l'] ipv4_str_no_colon by metis
  next
    case (Some p')
    then have "IP_String ip' = ipv4_str p'" using assms(2) by (auto simp: IP_String_def)
    with assms(3) s have "p = p'"
      using To4_len [OF Some] To4_len [OF \<open>To4 ip = Some p\<close>] by (intro ipv4_str_inject) simp_all
    with Some \<open>To4 ip = Some p\<close> show ?thesis by (simp add: canonical_ip_def)
  qed
qed

section \<open>Parsing what is printed\<close>

lemma ord_digit: "d < 10 \<Longrightarrow> ord (digit_char d) = 48 + d"
  by (simp add: digit_char_def)

lemma dtoi_append: "dtoi n (s @ t) = (case dtoi n s of None \<Rightarrow> None | Some k \<Rightarrow> dtoi k t)"
  by (induction n s rule: dtoi.induct) (auto simp: Let_def)

lemma dtoi_itoa: "m < 0xFFFFFF \<Longrightarrow> dtoi 0 (itoa 10 m) = Some m"
proof (induction "10::nat" m rule: itoa.induct)
  case (1 m)
  show ?case
  proof (cases "m < 10")
    case True
    then show ?thesis by (subst itoa.simps) (simp add: digit_char_is_digit ord_digit)
  next
    case False
    with 1 have "dtoi 0 (itoa 10 (m div 10)) = Some (m div 10)" by simp
    with False "1.prems" show ?thesis
      by (subst itoa.simps) (simp add: dtoi_append digit_char_is_digit ord_digit)
  qed
qed

lemma ipv4_fields_number:
  "m \<le> 255 \<Longrightarrow> ipv4_fields d 0 0 fs (itoa 10 m @ s) =
     ipv4_fields False m (length (itoa 10 m)) fs s"
proof (induction "10::nat" m arbitrary: s rule: itoa.induct)
  case (1 m)
  show ?case
  proof (cases "m < 10")
    case True
    then show ?thesis by (subst (1 2) itoa.simps) (simp add: digit_char_is_digit ord_digit)
  next
    case False
    from "1.prems" have "m div 10 \<le> 255" "m div 10 \<noteq> 0"
      using False by (simp_all add: div_eq_0_iff)
    with False "1.hyps" "1.prems" show ?thesis
      by (subst (1 2) itoa.simps) (simp add: digit_char_is_digit ord_digit)
  qed
qed

lemma ipv4_fields_dot:
  "s \<noteq> [] \<Longrightarrow> length fs \<noteq> 3 \<Longrightarrow>
   ipv4_fields False v dl fs (CHR ''.'' # s) = ipv4_fields True 0 0 (fs @ [v]) s"
  by (simp add: is_digit_def ord_def)

lemma unat_byte_le: "unat (b :: byte) \<le> 255"
  using unsigned_less [of b, where ?'a = nat] by simp

lemma length4: "length p = 4 \<Longrightarrow> \<exists>a b c d. p = [a, b, c, d]"
  by (auto simp: numeral_eq_Suc length_Suc_conv)

lemma parse_ipv4_str:
  assumes "length p = 4"
  shows "parse_ipv4 (ipv4_str p) = Some p"
proof -
  obtain a b c d where p: "p = [a, b, c, d]" using length4 [OF assms] by blast
  have "ipv4_fields True 0 0 [] (ipv4_str p) = Some (map unat p)"
    by (simp add: p ipv4_str_def dec_str_def ipv4_fields_number unat_byte_le ipv4_fields_dot
        ipv4_fields_number [of _ _ _ "[]", simplified] del: ipv4_fields.simps(2))
  then show ?thesis by (simp add: parse_ipv4_def p)
qed

lemma find_first: "\<forall>x \<in> set xs. \<not> P x \<Longrightarrow> P y \<Longrightarrow> find P (xs @ y # ys) = Some y"
  by (induction xs) auto

lemma digit_plain: "is_digit c \<Longrightarrow> c \<noteq> CHR ''.'' \<and> c \<noteq> CHR '':'' \<and> c \<noteq> CHR ''%'' \<and> c \<noteq> CHR ''/''"
  by (auto simp: is_digit_def ord_def)

lemma ParseAddr_ipv4_str:
  assumes "length p = 4"
  shows "ParseAddr (ipv4_str p) = Some p"
proof -
  obtain a b c d where p: "p = [a, b, c, d]" using length4 [OF assms] by blast
  have "find (\<lambda>c. c \<in> {CHR ''.'', CHR '':'', CHR ''%''})
      (dec_str (unat a) @ CHR ''.'' # ipv4_str [b, c, d]) = Some (CHR ''.'')"
    by (rule find_first) (use dec_str_digits digit_plain in blast, simp)
  moreover have "ipv4_str p = dec_str (unat a) @ CHR ''.'' # ipv4_str [b, c, d]"
    by (simp add: p ipv4_str_def)
  ultimately show ?thesis
    using parse_ipv4_str [OF assms] by (simp add: ParseAddr_def)
qed

lemma ipv4_str_no_slash: "c \<in> set (ipv4_str p) \<Longrightarrow> c \<noteq> CHR ''/''"
proof -
  assume "c \<in> set (ipv4_str p)"
  moreover have "c \<in> set (Join ''.'' ps) \<Longrightarrow> c = CHR ''.'' \<or> (\<exists>q \<in> set ps. c \<in> set q)" for ps
    by (induction "''.''" ps rule: Join.induct) auto
  ultimately show ?thesis
    using dec_str_digits digit_plain by (fastforce simp: ipv4_str_def)
qed

text \<open>A printed IPv4 network is parsed back.\<close>

lemma ParseCIDR_printed:
  assumes "length p = 4" "n \<le> 32"
  shows "ParseCIDR (ipv4_str p @ ''/'' @ dec_str n) =
    Some \<lparr>ipnet_IP = map2 (AND) p (cidr_mask 4 n), ipnet_Mask = cidr_mask 4 n\<rparr>"
proof -
  have ns: "\<forall>c \<in> set (ipv4_str p). c \<noteq> CHR ''/''" using ipv4_str_no_slash by blast
  have "dec_str n \<noteq> []" by (simp add: dec_str_def)
  moreover have "dtoi 0 (dec_str n) = Some n" using assms by (simp add: dec_str_def dtoi_itoa)
  ultimately show ?thesis
    using assms ns by (simp add: ParseCIDR_def ParseAddr_ipv4_str Let_def)
qed

end
