(* ===== verification/Enricher.thy ===== *)
theory Enricher
  imports Types
begin

text \<open>
  Container attribution, \<open>internal/enricher/enricher.go\<close>. The file system is the argument \<open>fs\<close>:
  what \<open>os.ReadFile\<close> returns for a path, \<open>None\<close> for an error. Each regular expression is a
  literal followed by 64 lower-case hex digits (captured) and a condition on what follows;
  \<open>FindStringSubmatch\<close> returns the leftmost match. The locale \<open>container_pattern\<close> is what
  \<open>parseCgroup\<close> needs of such a pattern; it is interpreted for all five of them.
\<close>

type_synonym FileSystem = "string \<Rightarrow> string option"

record ContainerInfo =
  ci_ContainerID :: string
  ci_Runtime :: string
  ci_PodName :: string
  ci_Namespace :: string

definition no_container :: ContainerInfo where
  "no_container = \<lparr>ci_ContainerID = [], ci_Runtime = [], ci_PodName = [], ci_Namespace = []\<rparr>"

definition mk_container :: "string \<Rightarrow> string \<Rightarrow> ContainerInfo" where
  "mk_container cid rt =
     \<lparr>ci_ContainerID = cid, ci_Runtime = rt, ci_PodName = [], ci_Namespace = []\<rparr>"

section \<open>The regular expressions\<close>

text \<open>The class \<open>[a-f0-9]\<close>.\<close>

definition hex_lower :: "char \<Rightarrow> bool" where
  "hex_lower c \<longleftrightarrow> (48 \<le> ord c \<and> ord c \<le> 57) \<or> (97 \<le> ord c \<and> ord c \<le> 102)"

definition hex64 :: "string \<Rightarrow> bool" where
  "hex64 s \<longleftrightarrow> 64 \<le> length s \<and> list_all hex_lower (take 64 s)"

text \<open>A match at the head of the string: the literal, the group, and a condition on the rest.\<close>

definition match_here :: "string \<Rightarrow> (string \<Rightarrow> bool) \<Rightarrow> string \<Rightarrow> string option" where
  "match_here lit tail s =
     (if HasPrefix s lit \<and> hex64 (drop (length lit) s) \<and> tail (drop (length lit + 64) s)
      then Some (take 64 (drop (length lit) s)) else None)"

fun find_submatch :: "string \<Rightarrow> (string \<Rightarrow> bool) \<Rightarrow> string \<Rightarrow> string option" where
  "find_submatch lit tail [] = match_here lit tail []"
| "find_submatch lit tail (c # s) =
     (case match_here lit tail (c # s) of
        Some m \<Rightarrow> Some m
      | None \<Rightarrow> find_submatch lit tail s)"

definition anywhere :: "string \<Rightarrow> bool" where
  "anywhere s = True"

definition scope_end :: "string \<Rightarrow> bool" where
  "scope_end s \<longleftrightarrow> s = [] \<or> s = ''.scope''"

definition dockerRe :: "string \<Rightarrow> string option" where
  "dockerRe = find_submatch ''/docker/'' anywhere"

definition containerdRe :: "string \<Rightarrow> string option" where
  "containerdRe = find_submatch ''cri-containerd-'' anywhere"

definition podmanRe :: "string \<Rightarrow> string option" where
  "podmanRe = find_submatch ''libpod-'' anywhere"

definition crioRe :: "string \<Rightarrow> string option" where
  "crioRe = find_submatch ''crio-'' anywhere"

definition k8sContainerRe :: "string \<Rightarrow> string option" where
  "k8sContainerRe = find_submatch ''/'' scope_end"

section \<open>\<open>parseCgroup\<close>, \<open>parseEnviron\<close>, \<open>Enrich\<close>\<close>

text \<open>The first loop: the four providers in turn on each line.\<close>

fun provider_loop :: "string list \<Rightarrow> ContainerInfo option" where
  "provider_loop [] = None"
| "provider_loop (line # rest) =
     (case dockerRe line of Some m \<Rightarrow> Some (mk_container (take 12 m) ''docker'')
      | None \<Rightarrow>
     (case containerdRe line of Some m \<Rightarrow> Some (mk_container (take 12 m) ''containerd'')
      | None \<Rightarrow>
     (case podmanRe line of Some m \<Rightarrow> Some (mk_container (take 12 m) ''podman'')
      | None \<Rightarrow>
     (case crioRe line of Some m \<Rightarrow> Some (mk_container (take 12 m) ''cri-o'')
      | None \<Rightarrow> provider_loop rest))))"

fun kubepods_loop :: "string list \<Rightarrow> ContainerInfo option" where
  "kubepods_loop [] = None"
| "kubepods_loop (line # rest) =
     (case k8sContainerRe line of
        Some m \<Rightarrow>
          (let rt = (if Contains line ''crio'' then ''cri-o'' else ''containerd'')
           in Some (mk_container (take 12 m) rt))
      | None \<Rightarrow> kubepods_loop rest)"

definition newline :: char where
  "newline = CHR 0x0A"

definition parseCgroup :: "string \<Rightarrow> ContainerInfo" where
  "parseCgroup data =
     (case provider_loop (Split newline data) of
        Some info \<Rightarrow> info
      | None \<Rightarrow>
          (case (if Contains data ''kubepods'' then kubepods_loop (Split newline data) else None) of
             Some info \<Rightarrow> info
           | None \<Rightarrow> no_container))"

fun environ_loop :: "string list \<Rightarrow> string \<times> string \<Rightarrow> string \<times> string" where
  "environ_loop [] (podName, namespace) = (podName, namespace)"
| "environ_loop (v # rest) (podName, namespace) =
     environ_loop rest
       (if HasPrefix v ''HOSTNAME='' then (TrimPrefix v ''HOSTNAME='', namespace)
        else if HasPrefix v ''POD_NAMESPACE='' then (podName, TrimPrefix v ''POD_NAMESPACE='')
        else (podName, namespace))"

definition parseEnviron :: "string \<Rightarrow> string \<times> string" where
  "parseEnviron data = environ_loop (Split (CHR 0x00) data) ([], [])"

definition readFile :: "FileSystem \<Rightarrow> string \<Rightarrow> string" where
  "readFile fs path = (case fs path of None \<Rightarrow> [] | Some b \<Rightarrow> b)"

definition proc_path :: "u32 \<Rightarrow> string \<Rightarrow> string" where
  "proc_path pid file = ''/proc/'' @ dec_str (unat pid) @ ''/'' @ file"

definition Enrich :: "FileSystem \<Rightarrow> u32 \<Rightarrow> ContainerInfo" where
  "Enrich fs pid =
     (let cgroup = readFile fs (proc_path pid ''cgroup'') in
      if cgroup = [] then no_container
      else let info = parseCgroup cgroup in
      if ci_ContainerID info = [] then no_container
      else let environ = readFile fs (proc_path pid ''environ'') in
      if environ \<noteq> [] then
        (let (pod, ns) = parseEnviron environ in info\<lparr>ci_PodName := pod, ci_Namespace := ns\<rparr>)
      else info)"

section \<open>The contract of a container pattern\<close>

definition container_id :: "string \<Rightarrow> bool" where
  "container_id m \<longleftrightarrow> length m = 64 \<and> list_all hex_lower m"

locale container_pattern =
  fixes find :: "string \<Rightarrow> string option" and lit :: string
  assumes find_sound: "find line = Some m \<Longrightarrow> container_id m \<and> sublist (lit @ m) line"
begin

lemma short_id: "find line = Some m \<Longrightarrow> length (take 12 m) = 12 \<and> list_all hex_lower (take 12 m)"
  using find_sound [of line m] by (auto simp: container_id_def list_all_iff dest: in_set_takeD)

lemma no_literal: "\<not> sublist lit line \<Longrightarrow> find line = None"
proof (cases "find line")
  case (Some m)
  assume n: "\<not> sublist lit line"
  have "sublist lit (lit @ m)" by simp
  with find_sound [OF Some] have "sublist lit line" using sublist_order.order_trans by blast
  with n show ?thesis by simp
qed

end

locale searching_pattern = container_pattern +
  assumes find_complete: "container_id m \<Longrightarrow> sublist (lit @ m) line \<Longrightarrow> find line \<noteq> None"

lemma match_here_sound:
  "match_here lit tail s = Some m \<Longrightarrow> container_id m \<and> prefix (lit @ m) s"
  by (auto simp: match_here_def container_id_def hex64_def HasPrefix_iff prefix_def
      split: if_splits) (metis append_take_drop_id)

lemma find_submatch_sound:
  "find_submatch lit tail s = Some m \<Longrightarrow> container_id m \<and> sublist (lit @ m) s"
proof (induction s)
  case Nil
  then show ?case using match_here_sound [of lit tail "[]" m] by auto
next
  case (Cons c s)
  then show ?case
    using match_here_sound [of lit tail "c # s" m] prefix_imp_sublist
    by (auto split: option.splits intro: sublist_Cons_right [THEN iffD2])
qed

lemma match_here_complete: "container_id m \<Longrightarrow> match_here lit anywhere (lit @ m @ r) \<noteq> None"
  by (simp add: match_here_def hex64_def anywhere_def container_id_def)

lemma find_submatch_complete:
  assumes "container_id m" "sublist (lit @ m) s"
  shows "find_submatch lit anywhere s \<noteq> None"
proof -
  obtain a b where s: "s = a @ (lit @ m) @ b" using assms(2) by (auto simp: sublist_def)
  have "find_submatch lit anywhere (lit @ m @ b) \<noteq> None"
    using match_here_complete [OF assms(1), of lit b]
    by (cases "lit @ m @ b") (auto split: option.splits)
  then show ?thesis unfolding s
    by (induction a) (auto split: option.splits)
qed

interpretation docker: searching_pattern dockerRe "''/docker/''"
  by unfold_locales (auto simp only: dockerRe_def dest: find_submatch_sound find_submatch_complete)
interpretation containerd: searching_pattern containerdRe "''cri-containerd-''"
  by unfold_locales (auto simp only: containerdRe_def dest: find_submatch_sound find_submatch_complete)
interpretation podman: searching_pattern podmanRe "''libpod-''"
  by unfold_locales (auto simp only: podmanRe_def dest: find_submatch_sound find_submatch_complete)
interpretation crio: searching_pattern crioRe "''crio-''"
  by unfold_locales (auto simp only: crioRe_def dest: find_submatch_sound find_submatch_complete)
interpretation k8s: container_pattern k8sContainerRe "''/''"
  by unfold_locales (auto simp only: k8sContainerRe_def dest: find_submatch_sound)

lemmas short_ids = docker.short_id containerd.short_id podman.short_id crio.short_id k8s.short_id

section \<open>What \<open>parseCgroup\<close> finds\<close>

text \<open>The providers with their literals; the kubepods pattern has only a slash.\<close>

definition providers :: "(string \<times> string) list" where
  "providers =
     [(''/docker/'', ''docker''), (''cri-containerd-'', ''containerd''), (''libpod-'', ''podman''),
      (''crio-'', ''cri-o'')]"

definition id_at :: "string \<Rightarrow> string \<Rightarrow> string \<Rightarrow> bool" where
  "id_at lit m data \<longleftrightarrow> container_id m \<and> (\<exists>line \<in> set (Split newline data). sublist (lit @ m) line)"

lemma provider_loop_sound:
  "provider_loop lines = Some info \<Longrightarrow>
   \<exists>line \<in> set lines. \<exists>m. \<exists>(lit, rt) \<in> set providers.
     container_id m \<and> sublist (lit @ m) line \<and> info = mk_container (take 12 m) rt"
proof (induction lines)
  case (Cons line rest)
  then show ?case
    using docker.find_sound [of line] containerd.find_sound [of line] podman.find_sound [of line]
      crio.find_sound [of line]
    by (auto simp: providers_def split: option.splits)
qed simp

lemma provider_loop_complete:
  assumes "line \<in> set lines" "container_id m" "(lit, rt) \<in> set providers" "sublist (lit @ m) line"
  shows "provider_loop lines \<noteq> None"
proof -
  have "\<not> (dockerRe line = None \<and> containerdRe line = None \<and> podmanRe line = None \<and> crioRe line = None)"
    using assms(2-4) docker.find_complete containerd.find_complete podman.find_complete
      crio.find_complete by (auto simp: providers_def)
  with assms(1) show ?thesis by (induction lines) (auto split: option.splits)
qed

lemma kubepods_loop_sound:
  "kubepods_loop lines = Some info \<Longrightarrow>
   \<exists>line \<in> set lines. \<exists>m. \<exists>rt \<in> {''cri-o'', ''containerd''}.
     container_id m \<and> sublist (''/'' @ m) line \<and> info = mk_container (take 12 m) rt"
proof (induction lines)
  case (Cons line rest)
  then show ?case
    using k8s.find_sound [of line] by (auto simp: Let_def split: option.splits if_splits)
qed simp

lemma parseCgroup_cases:
  obtains "parseCgroup data = no_container"
  | lit rt m where "(lit, rt) \<in> set providers" "id_at lit m data"
      "parseCgroup data = mk_container (take 12 m) rt"
  | rt m where "rt \<in> {''cri-o'', ''containerd''}" "id_at ''/'' m data"
      "parseCgroup data = mk_container (take 12 m) rt"
proof (cases "provider_loop (Split newline data)")
  case (Some info)
  from provider_loop_sound [OF this] Some that(2) show thesis
    by (auto simp: parseCgroup_def id_at_def)
next
  case None
  show thesis
  proof (cases "Contains data ''kubepods'' \<and> kubepods_loop (Split newline data) \<noteq> None")
    case True
    then obtain info where "kubepods_loop (Split newline data) = Some info" by auto
    from kubepods_loop_sound [OF this] this None True that(3) show thesis
      by (auto simp: parseCgroup_def id_at_def)
  next
    case False
    with None that(1) show thesis by (auto simp: parseCgroup_def)
  qed
qed

text \<open>
  C37. Container ids are never made up: \<open>parseCgroup\<close> reports no container, or the first 12 digits of a
  64-digit id that stands in a line of the file right after the literal of the runtime it names
  (for the kubepods pattern, after a slash).
\<close>

theorem parseCgroup_sound:
  "parseCgroup data = no_container \<or>
   (\<exists>lit rt m. (lit, rt) \<in> set providers \<union> {(''/'', ''cri-o''), (''/'', ''containerd'')} \<and>
      id_at lit m data \<and> parseCgroup data = mk_container (take 12 m) rt)"
  by (rule parseCgroup_cases [of data]) blast+

text \<open>
  And none is missed: a file with a line that holds the literal of one of the four providers and an
  id after it gets a container, with an id of 12 lower-case hexadecimal digits.
\<close>

theorem parseCgroup_complete:
  assumes "(lit, rt) \<in> set providers" "id_at lit m data"
  shows "parseCgroup data \<noteq> no_container \<and> length (ci_ContainerID (parseCgroup data)) = 12 \<and>
    list_all hex_lower (ci_ContainerID (parseCgroup data))"
proof -
  have "provider_loop (Split newline data) \<noteq> None"
    using assms provider_loop_complete by (auto simp: id_at_def)
  then obtain info where i: "provider_loop (Split newline data) = Some info" by blast
  from provider_loop_sound [OF this] obtain m' rt' where m: "container_id m'"
    "info = mk_container (take 12 m') rt'" by blast
  have "parseCgroup data = info" using i by (simp add: parseCgroup_def)
  moreover have "length (take 12 m') = 12" "list_all hex_lower (take 12 m')"
    using m(1) by (auto simp: container_id_def list_all_iff dest: in_set_takeD)
  ultimately show ?thesis using m(2) by (auto simp: mk_container_def no_container_def)
qed

theorem parseCgroup_complete_witness:
  "parseCgroup (''0::/system.slice/docker.service'' @ [newline] @ ''1:cpu:/docker/'' @
     replicate 64 (CHR ''a'')) \<noteq> no_container"
proof -
  have "id_at ''/docker/'' (replicate 64 (CHR ''a''))
    (''0::/system.slice/docker.service'' @ [newline] @ ''1:cpu:/docker/'' @ replicate 64 (CHR ''a''))"
  proof -
    have "\<forall>c \<in> set ''0::/system.slice/docker.service''. newline \<noteq> c" by (simp add: newline_def)
    then have "Split newline (''0::/system.slice/docker.service'' @ newline #
        (''1:cpu:/docker/'' @ replicate 64 (CHR ''a''))) =
      ''0::/system.slice/docker.service'' # Split newline (''1:cpu:/docker/'' @ replicate 64 (CHR ''a''))"
      by (intro Split_append_sep) blast
    moreover have "Split newline (''1:cpu:/docker/'' @ replicate 64 (CHR ''a'')) =
        [''1:cpu:/docker/'' @ replicate 64 (CHR ''a'')]"
      by (rule Split_plain) (simp add: newline_def)
    moreover have "sublist (''/docker/'' @ replicate 64 (CHR ''a''))
        (''1:cpu:'' @ ''/docker/'' @ replicate 64 (CHR ''a''))" by (rule sublist_append_leftI)
    ultimately show ?thesis
      by (simp add: id_at_def container_id_def hex_lower_def ord_def list_all_iff)
  qed
  then show ?thesis
    by (intro parseCgroup_complete [THEN conjunct1, of "''/docker/''" "''docker''"])
      (simp_all add: providers_def)
qed

section \<open>What \<open>Enrich\<close> reads\<close>

definition last_value :: "string \<Rightarrow> string list \<Rightarrow> string" where
  "last_value name vars =
     (case find (\<lambda>v. HasPrefix v name) (rev vars) of None \<Rightarrow> [] | Some v \<Rightarrow> drop (length name) v)"

lemma environ_loop_append: "environ_loop (vs @ ws) p = environ_loop ws (environ_loop vs p)"
  by (induction vs p rule: environ_loop.induct) auto

lemma HasPrefix_exclusive:
  "HasPrefix v ''HOSTNAME='' \<Longrightarrow> \<not> HasPrefix v ''POD_NAMESPACE=''"
  by (cases v) (auto simp: HasPrefix_iff)

lemma environ_loop_last:
  "environ_loop vars ([], []) = (last_value ''HOSTNAME='' vars, last_value ''POD_NAMESPACE='' vars)"
proof (induction vars rule: rev_induct)
  case Nil
  then show ?case by (simp add: last_value_def)
next
  case (snoc v vars)
  then show ?case
    using HasPrefix_exclusive [of v]
    by (auto simp: environ_loop_append last_value_def TrimPrefix_def)
qed

text \<open>
  The environment of a container process: for a file that holds the given variables, NUL-separated,
  the pod name and the namespace are the values of the last \<open>HOSTNAME\<close> and \<open>POD_NAMESPACE\<close>, and
  empty where there is none.
\<close>

theorem parseEnviron_last:
  assumes "vars \<noteq> []" "\<forall>v \<in> set vars. CHR 0x00 \<notin> set v"
  shows "parseEnviron (Join [CHR 0x00] vars) =
    (last_value ''HOSTNAME='' vars, last_value ''POD_NAMESPACE='' vars)"
  using assms by (simp add: parseEnviron_def Split_Join environ_loop_last)

theorem parseEnviron_last_witness:
  "parseEnviron (Join [CHR 0x00] [''HOSTNAME=a'', ''PATH=/bin'', ''HOSTNAME=web-0'']) = (''web-0'', [])"
  using parseEnviron_last [of "[''HOSTNAME=a'', ''PATH=/bin'', ''HOSTNAME=web-0'']"]
  by (simp add: last_value_def HasPrefix_def)

lemma parseCgroup_Nil: "parseCgroup [] = no_container"
  by code_simp

lemma parseEnviron_Nil: "parseEnviron [] = ([], [])"
  by code_simp

text \<open>
  \<open>Enrich\<close> as one equation: id and runtime are those of the cgroup file, and pod and namespace are
  those of the environment, but only for a process that is in a container; files that cannot be
  read count as empty, so enrichment always returns.
\<close>

theorem Enrich_result:
  "Enrich fs pid =
     (let info = parseCgroup (readFile fs (proc_path pid ''cgroup''));
          pod = parseEnviron (readFile fs (proc_path pid ''environ''))
      in if ci_ContainerID info = [] then no_container
         else info\<lparr>ci_PodName := fst pod, ci_Namespace := snd pod\<rparr>)"
proof -
  let ?i = "parseCgroup (readFile fs (proc_path pid ''cgroup''))"
  have "ci_PodName ?i = [] \<and> ci_Namespace ?i = []"
    by (rule parseCgroup_cases [of "readFile fs (proc_path pid ''cgroup'')"])
      (simp_all add: no_container_def mk_container_def)
  then have "?i\<lparr>ci_PodName := [], ci_Namespace := []\<rparr> = ?i" by (cases ?i) simp
  then show ?thesis
    by (auto simp: Enrich_def Let_def parseCgroup_Nil parseEnviron_Nil no_container_def
        split: prod.split)
qed

end
