(* ===== verification/Policy.thy ===== *)
theory Policy
  imports GoNet Enricher
begin

text \<open>
  The registry allow-list, \<open>internal/policy/policy.go\<close>. The YAML parser
  (\<open>gopkg.in/yaml.v3\<close>) is the argument \<open>unmarshal\<close>. Go iterates over the map
  \<open>pf.Registries\<close> in an unspecified order: the argument \<open>rng\<close> is the order of one run, a list
  with the entries of the map (\<open>range_of\<close>). Errors are values of \<open>policy_error\<close>.
\<close>

record Registry =
  r_Name :: string
  r_Hosts :: "string list"
  r_CIDRs :: "string list"

type_synonym policyFile = "(string, Registry) fmap"

record resolvedRegistry =
  rr_name :: string
  rr_nets :: "IPNet list"

record Policy =
  p_registries :: "resolvedRegistry list"

datatype policy_error =
    ReadingPolicyFile
  | ParsingPolicyYAML string
  | InvalidCIDR string string

text \<open>The inner loop of \<open>Load\<close> over the CIDRs of one registry.\<close>

fun load_cidrs :: "string \<Rightarrow> string list \<Rightarrow> policy_error + IPNet list" where
  "load_cidrs i [] = Inr []"
| "load_cidrs i (cidr # rest) =
     (case ParseCIDR cidr of
        None \<Rightarrow> Inl (InvalidCIDR cidr i)
      | Some ipnet \<Rightarrow>
          (case load_cidrs i rest of
             Inl err \<Rightarrow> Inl err
           | Inr nets \<Rightarrow> Inr (ipnet # nets)))"

fun load_registries :: "(string \<times> Registry) list \<Rightarrow> policy_error + resolvedRegistry list" where
  "load_registries [] = Inr []"
| "load_registries ((i, reg) # rest) =
     (case load_cidrs i (r_CIDRs reg) of
        Inl err \<Rightarrow> Inl err
      | Inr nets \<Rightarrow>
          (case load_registries rest of
             Inl err \<Rightarrow> Inl err
           | Inr rrs \<Rightarrow> Inr (\<lparr>rr_name = r_Name reg, rr_nets = nets\<rparr> # rrs)))"

definition Load ::
  "FileSystem \<Rightarrow> (string \<Rightarrow> string + policyFile) \<Rightarrow> (policyFile \<Rightarrow> (string \<times> Registry) list) \<Rightarrow>
   string \<Rightarrow> policy_error + Policy" where
  "Load fs unmarshal rng path =
     (case fs path of
        None \<Rightarrow> Inl ReadingPolicyFile
      | Some data \<Rightarrow>
          (case unmarshal data of
             Inl err \<Rightarrow> Inl (ParsingPolicyYAML err)
           | Inr pf \<Rightarrow>
               (case load_registries (rng pf) of
                  Inl err \<Rightarrow> Inl err
                | Inr rrs \<Rightarrow> Inr \<lparr>p_registries = rrs\<rparr>)))"

text \<open>\<open>IsAllowedIP\<close>: the first registry with a network that contains the address.\<close>

fun allowed_loop :: "resolvedRegistry list \<Rightarrow> IP \<Rightarrow> bool \<times> string" where
  "allowed_loop [] ip = (False, [])"
| "allowed_loop (reg # regs) ip =
     (if list_ex (\<lambda>n. IPNet_Contains n ip) (rr_nets reg) then (True, rr_name reg)
      else allowed_loop regs ip)"

definition IsAllowedIP :: "Policy option \<Rightarrow> IP \<Rightarrow> bool \<times> string" where
  "IsAllowedIP p ip =
     (case p of None \<Rightarrow> (False, []) | Some q \<Rightarrow> allowed_loop (p_registries q) ip)"

section \<open>Iteration orders\<close>

definition range_of :: "(string \<times> Registry) list \<Rightarrow> policyFile \<Rightarrow> bool" where
  "range_of es m \<longleftrightarrow> distinct (map fst es) \<and> (\<forall>k v. (k, v) \<in> set es \<longleftrightarrow> fmlookup m k = Some v)"

lemma range_of_set: "range_of es m \<Longrightarrow> range_of es' m \<Longrightarrow> set es = set es'"
  by (auto simp: range_of_def)

section \<open>What a loaded policy allows\<close>

text \<open>The specification: some CIDR of some registry of the file contains the address.\<close>

definition cidr_contains :: "string \<Rightarrow> IP \<Rightarrow> bool" where
  "cidr_contains c ip \<longleftrightarrow> (case ParseCIDR c of None \<Rightarrow> False | Some n \<Rightarrow> IPNet_Contains n ip)"

definition registry_covers :: "Registry \<Rightarrow> IP \<Rightarrow> bool" where
  "registry_covers reg ip \<longleftrightarrow> (\<exists>c \<in> set (r_CIDRs reg). cidr_contains c ip)"

lemma load_cidrs_ok:
  "load_cidrs i cs = Inr nets \<Longrightarrow>
   list_ex (\<lambda>n. IPNet_Contains n ip) nets \<longleftrightarrow> (\<exists>c \<in> set cs. cidr_contains c ip)"
proof (induction i cs arbitrary: nets rule: load_cidrs.induct)
  case (2 i c rest)
  then obtain n ns where n: "ParseCIDR c = Some n" "load_cidrs i rest = Inr ns" "nets = n # ns"
    by (auto split: option.splits sum.splits)
  with "2.IH" [OF n(1) n(2)] show ?case by (simp add: cidr_contains_def)
qed simp

lemma load_cidrs_success: "(\<exists>nets. load_cidrs i cs = Inr nets) \<longleftrightarrow> (\<forall>c \<in> set cs. ParseCIDR c \<noteq> None)"
  by (induction i cs rule: load_cidrs.induct) (auto split: option.splits sum.splits)

lemma load_registries_success:
  "(\<exists>rrs. load_registries es = Inr rrs) \<longleftrightarrow>
   (\<forall>e \<in> set es. \<forall>c \<in> set (r_CIDRs (snd e)). ParseCIDR c \<noteq> None)"
proof (induction es rule: load_registries.induct)
  case (2 i reg rest)
  have "(\<exists>rrs. load_registries ((i, reg) # rest) = Inr rrs) \<longleftrightarrow>
    (\<exists>nets. load_cidrs i (r_CIDRs reg) = Inr nets) \<and> (\<exists>rrs. load_registries rest = Inr rrs)"
    by (cases "load_cidrs i (r_CIDRs reg)"; cases "load_registries rest") auto
  moreover have "(\<exists>nets. load_cidrs i (r_CIDRs reg) = Inr nets) \<Longrightarrow> ?case"
    using 2 calculation load_cidrs_success [of i "r_CIDRs reg"] by auto
  ultimately show ?case using load_cidrs_success [of i "r_CIDRs reg"] by auto
qed simp

lemma load_registries_allowed:
  "load_registries es = Inr rrs \<Longrightarrow>
   (case allowed_loop rrs ip of
      (True, name) \<Rightarrow> \<exists>(i, reg) \<in> set es. registry_covers reg ip \<and> name = r_Name reg
    | (False, name) \<Rightarrow> name = [] \<and> (\<forall>(i, reg) \<in> set es. \<not> registry_covers reg ip))"
proof (induction es arbitrary: rrs rule: load_registries.induct)
  case (2 i reg rest)
  then obtain nets rrs' where l: "load_cidrs i (r_CIDRs reg) = Inr nets"
    "load_registries rest = Inr rrs'" "rrs = \<lparr>rr_name = r_Name reg, rr_nets = nets\<rparr> # rrs'"
    by (auto split: sum.splits)
  have c: "list_ex (\<lambda>n. IPNet_Contains n ip) nets \<longleftrightarrow> registry_covers reg ip"
    using load_cidrs_ok [OF l(1)] by (simp add: registry_covers_def)
  show ?case
    using "2.IH" [OF l(1) l(2)] l(3) c
    by (cases "allowed_loop rrs' ip") (auto split: bool.splits)
qed simp

section \<open>The contract of an allow-list\<close>

text \<open>
  What the network rule relies on: the answer depends on the address only, not on whether the
  kernel reported it as IPv4 or as an IPv4-mapped IPv6 address.
\<close>

locale allow_list =
  fixes allowed :: "'p \<Rightarrow> IP \<Rightarrow> bool \<times> string"
  assumes allowed_canonical: "canonical_ip ip = canonical_ip ip' \<Longrightarrow> allowed p ip = allowed p ip'"
begin

lemma allowed_mapped: "length ip = 4 \<Longrightarrow> allowed p (v4InV6Prefix @ ip) = allowed p ip"
  by (rule allowed_canonical) (simp add: canonical_ip_def To4_def v4InV6Prefix_def)

end

lemma Contains_canonical:
  "canonical_ip ip = canonical_ip ip' \<Longrightarrow> IPNet_Contains n ip = IPNet_Contains n ip'"
proof -
  assume c: "canonical_ip ip = canonical_ip ip'"
  obtain F where F: "IPNet_Contains n i = F (canonical_ip i)" for i
  proof
    show "IPNet_Contains n i =
      (\<lambda>c. case networkNumberAndMask n of
         Some (nn, m) \<Rightarrow> length c = length nn \<and> masked_eq nn m c | None \<Rightarrow> c = []) (canonical_ip i)" for i
      by (auto simp: IPNet_Contains_def canonical_ip_def Let_def split: option.splits)
  qed
  show ?thesis by (simp add: F c)
qed

lemma allowed_loop_canonical:
  "canonical_ip ip = canonical_ip ip' \<Longrightarrow> allowed_loop rrs ip = allowed_loop rrs ip'"
proof (induction rrs)
  case (Cons reg rrs)
  have "IPNet_Contains n ip = IPNet_Contains n ip'" for n
    using Cons.prems by (rule Contains_canonical)
  with Cons show ?case by simp
qed simp

interpretation policy: allow_list IsAllowedIP
proof
  fix ip ip' :: IP and p
  assume "canonical_ip ip = canonical_ip ip'"
  then have "allowed_loop rrs ip = allowed_loop rrs ip'" for rrs by (rule allowed_loop_canonical)
  then show "IsAllowedIP p ip = IsAllowedIP p ip'" by (cases p) (simp_all add: IsAllowedIP_def)
qed

section \<open>Properties of a loaded policy\<close>

lemma Load_Inr:
  "Load fs unmarshal rng path = Inr p \<longleftrightarrow>
   (\<exists>data pf rrs. fs path = Some data \<and> unmarshal data = Inr pf \<and>
      load_registries (rng pf) = Inr rrs \<and> p = \<lparr>p_registries = rrs\<rparr>)"
  by (auto simp: Load_def split: option.splits sum.splits)

definition valid_policy :: "policyFile \<Rightarrow> bool" where
  "valid_policy pf \<longleftrightarrow> (\<forall>k reg. fmlookup pf k = Some reg \<longrightarrow> (\<forall>c \<in> set (r_CIDRs reg). ParseCIDR c \<noteq> None))"

lemma load_registries_valid:
  assumes "range_of es pf"
  shows "(\<exists>rrs. load_registries es = Inr rrs) \<longleftrightarrow> valid_policy pf"
proof -
  have "(\<forall>e \<in> set es. P (snd e)) \<longleftrightarrow> (\<forall>k reg. fmlookup pf k = Some reg \<longrightarrow> P reg)" for P
    using assms by (auto simp: range_of_def) (metis snd_conv)
  then show ?thesis by (simp add: load_registries_success valid_policy_def)
qed

text \<open>
  C25. Which addresses a loaded policy allows. Whatever order Go visits the registries in, an address is
  allowed exactly if a CIDR of some registry of the file contains it, and the name that comes
  with the answer is the name of a registry that covers the address (empty if it is not allowed).
\<close>

theorem Load_allows:
  assumes "Load fs unmarshal rng path = Inr p" "fs path = Some data" "unmarshal data = Inr pf"
    "range_of (rng pf) pf" "IsAllowedIP (Some p) ip = (ok, name)"
  shows "(ok \<longleftrightarrow> (\<exists>k reg. fmlookup pf k = Some reg \<and> registry_covers reg ip)) \<and>
    (if ok then \<exists>k reg. fmlookup pf k = Some reg \<and> registry_covers reg ip \<and> name = r_Name reg
     else name = [])"
proof -
  obtain rrs where l: "load_registries (rng pf) = Inr rrs" "p = \<lparr>p_registries = rrs\<rparr>"
    using assms(1-3) by (auto simp: Load_Inr)
  have a: "allowed_loop rrs ip = (ok, name)" using assms(5) by (simp add: IsAllowedIP_def l(2))
  have m: "(k, reg) \<in> set (rng pf) \<longleftrightarrow> fmlookup pf k = Some reg" for k reg
    using assms(4) by (simp add: range_of_def)
  from load_registries_allowed [OF l(1), of ip] show ?thesis
    by (cases ok) (auto simp: a m, blast+)
qed

text \<open>Two registries of \<open>policy/default.yaml\<close>; both list the Fastly range.\<close>

definition pypi :: Registry where
  "pypi = \<lparr>r_Name = ''PyPI'', r_Hosts = [''pypi.org'', ''files.pythonhosted.org'', ''upload.pypi.org''],
     r_CIDRs = [''151.101.0.0/16'', ''146.75.0.0/16'']\<rparr>"

definition rubygems :: Registry where
  "rubygems = \<lparr>r_Name = ''RubyGems'',
     r_Hosts = [''rubygems.org'', ''index.rubygems.org'', ''api.rubygems.org''],
     r_CIDRs = [''151.101.0.0/16'']\<rparr>"

definition two_registries :: policyFile where
  "two_registries = fmap_of_list [(''pypi'', pypi), (''rubygems'', rubygems)]"

definition pypi_first :: "policyFile \<Rightarrow> (string \<times> Registry) list" where
  "pypi_first pf = [(''pypi'', pypi), (''rubygems'', rubygems)]"

definition rubygems_first :: "policyFile \<Rightarrow> (string \<times> Registry) list" where
  "rubygems_first pf = [(''rubygems'', rubygems), (''pypi'', pypi)]"

definition fastly_policy ::
  "(policyFile \<Rightarrow> (string \<times> Registry) list) \<Rightarrow> policy_error + Policy" where
  "fastly_policy rng = Load (\<lambda>path. Some []) (\<lambda>data. Inr two_registries) rng ''policy.yaml''"

lemma two_orders:
  "range_of (pypi_first two_registries) two_registries"
  "range_of (rubygems_first two_registries) two_registries"
  by (auto simp: range_of_def pypi_first_def rubygems_first_def two_registries_def
      fmlookup_of_list split: if_splits)

lemma fastly_cidr:
  "ParseCIDR ''151.101.0.0/16'' = Some \<lparr>ipnet_IP = [151, 101, 0, 0], ipnet_Mask = [255, 255, 0, 0]\<rparr>"
  "ParseCIDR ''146.75.0.0/16'' = Some \<lparr>ipnet_IP = [146, 75, 0, 0], ipnet_Mask = [255, 255, 0, 0]\<rparr>"
proof -
  have "ipv4_str [151, 101, 0, 0] @ ''/'' @ dec_str 16 = ''151.101.0.0/16''"
    "ipv4_str [146, 75, 0, 0] @ ''/'' @ dec_str 16 = ''146.75.0.0/16''"
    by code_simp+
  moreover have "cidr_mask 4 16 = [255, 255, 0, 0]" by code_simp
  ultimately show
    "ParseCIDR ''151.101.0.0/16'' = Some \<lparr>ipnet_IP = [151, 101, 0, 0], ipnet_Mask = [255, 255, 0, 0]\<rparr>"
    "ParseCIDR ''146.75.0.0/16'' = Some \<lparr>ipnet_IP = [146, 75, 0, 0], ipnet_Mask = [255, 255, 0, 0]\<rparr>"
    using ParseCIDR_printed [of "[151, 101, 0, 0]" 16] ParseCIDR_printed [of "[146, 75, 0, 0]" 16]
    by simp_all
qed

lemma fastly_contains:
  "IPNet_Contains \<lparr>ipnet_IP = [151, 101, 0, 0], ipnet_Mask = [255, 255, 0, 0]\<rparr> [151, 101, 0, 223]"
  by code_simp

lemma fastly_loaded:
  "fastly_policy pypi_first = Inr \<lparr>p_registries =
     [\<lparr>rr_name = ''PyPI'', rr_nets = [\<lparr>ipnet_IP = [151, 101, 0, 0], ipnet_Mask = [255, 255, 0, 0]\<rparr>,
        \<lparr>ipnet_IP = [146, 75, 0, 0], ipnet_Mask = [255, 255, 0, 0]\<rparr>]\<rparr>,
      \<lparr>rr_name = ''RubyGems'', rr_nets = [\<lparr>ipnet_IP = [151, 101, 0, 0], ipnet_Mask = [255, 255, 0, 0]\<rparr>]\<rparr>]\<rparr>"
  "fastly_policy rubygems_first = Inr \<lparr>p_registries =
     [\<lparr>rr_name = ''RubyGems'', rr_nets = [\<lparr>ipnet_IP = [151, 101, 0, 0], ipnet_Mask = [255, 255, 0, 0]\<rparr>]\<rparr>,
      \<lparr>rr_name = ''PyPI'', rr_nets = [\<lparr>ipnet_IP = [151, 101, 0, 0], ipnet_Mask = [255, 255, 0, 0]\<rparr>,
        \<lparr>ipnet_IP = [146, 75, 0, 0], ipnet_Mask = [255, 255, 0, 0]\<rparr>]\<rparr>]\<rparr>"
  by (simp_all add: fastly_policy_def Load_def pypi_first_def rubygems_first_def pypi_def
      rubygems_def fastly_cidr)

lemma fastly_allowed:
  "\<exists>p. fastly_policy pypi_first = Inr p \<and> IsAllowedIP (Some p) [151, 101, 0, 223] = (True, ''PyPI'')"
  "\<exists>p. fastly_policy rubygems_first = Inr p \<and> IsAllowedIP (Some p) [151, 101, 0, 223] = (True, ''RubyGems'')"
  by (simp_all add: fastly_loaded IsAllowedIP_def fastly_contains)

theorem Load_allows_witness:
  "\<exists>k reg. fmlookup two_registries k = Some reg \<and> registry_covers reg [151, 101, 0, 223] \<and>
     ''PyPI'' = r_Name reg"
proof -
  obtain p where p: "fastly_policy pypi_first = Inr p"
    "IsAllowedIP (Some p) [151, 101, 0, 223] = (True, ''PyPI'')" using fastly_allowed(1) by blast
  from Load_allows [OF p(1) [unfolded fastly_policy_def] refl refl two_orders(1) p(2)]
  show ?thesis by simp
qed

text \<open>
  Loading does not depend on the order either: with two orders of the same file, either both runs
  load a policy or neither does; they load one exactly if the file can be read and parsed and
  all its CIDRs are valid; and the two policies allow the same addresses.
\<close>

theorem Load_order:
  assumes "\<And>data pf. unmarshal data = Inr pf \<Longrightarrow> range_of (rng pf) pf \<and> range_of (rng' pf) pf"
  shows "((\<exists>p. Load fs unmarshal rng path = Inr p) \<longleftrightarrow>
      (\<exists>data pf. fs path = Some data \<and> unmarshal data = Inr pf \<and> valid_policy pf)) \<and>
    (case (Load fs unmarshal rng path, Load fs unmarshal rng' path) of
       (Inr p, Inr p') \<Rightarrow> fst (IsAllowedIP (Some p) ip) = fst (IsAllowedIP (Some p') ip)
     | (Inl _, Inl _) \<Rightarrow> True
     | _ \<Rightarrow> False)"
proof -
  have ex: "(\<exists>p. Load fs unmarshal r path = Inr p) \<longleftrightarrow>
      (\<exists>data pf. fs path = Some data \<and> unmarshal data = Inr pf \<and> valid_policy pf)"
    if "\<And>data pf. unmarshal data = Inr pf \<Longrightarrow> range_of (r pf) pf" for r
    using load_registries_valid [OF that] by (simp add: Load_Inr) metis
  have al: "fst (IsAllowedIP (Some p) ip) \<longleftrightarrow>
      (\<exists>data pf k reg. fs path = Some data \<and> unmarshal data = Inr pf \<and>
         fmlookup pf k = Some reg \<and> registry_covers reg ip)"
    if r: "\<And>data pf. unmarshal data = Inr pf \<Longrightarrow> range_of (r pf) pf"
      "Load fs unmarshal r path = Inr p" for r p
  proof -
    obtain data pf rrs where l: "fs path = Some data" "unmarshal data = Inr pf"
      "load_registries (r pf) = Inr rrs" "p = \<lparr>p_registries = rrs\<rparr>"
      using r(2) by (auto simp: Load_Inr)
    have m: "(k, reg) \<in> set (r pf) \<longleftrightarrow> fmlookup pf k = Some reg" for k reg
      using r(1) [OF l(2)] by (simp add: range_of_def)
    from load_registries_allowed [OF l(3), of ip] show ?thesis
      by (cases "allowed_loop rrs ip") (auto simp: l IsAllowedIP_def m split: bool.splits, blast+)
  qed
  note rr = assms [THEN conjunct1] assms [THEN conjunct2]
  show ?thesis
    using ex [OF rr(1)] ex [OF rr(2)] al [OF rr(1)] al [OF rr(2)]
    by (cases "Load fs unmarshal rng path"; cases "Load fs unmarshal rng' path") auto
qed

theorem Load_order_witness:
  "case (fastly_policy pypi_first, fastly_policy rubygems_first) of
     (Inr p, Inr p') \<Rightarrow> fst (IsAllowedIP (Some p) [8, 8, 8, 8]) = fst (IsAllowedIP (Some p') [8, 8, 8, 8])
   | (Inl _, Inl _) \<Rightarrow> True
   | _ \<Rightarrow> False"
  unfolding fastly_policy_def
  by (rule Load_order [THEN conjunct2]) (use two_orders in auto)

text \<open>
  The name does depend on it. With the two registries of the default policy that share the Fastly
  range, an address of that range is attributed to PyPI in one run and to RubyGems in the next,
  although both orders are iterations over the same map.
\<close>

theorem registry_name_varies:
  "\<exists>p p'. range_of (pypi_first two_registries) two_registries \<and>
     range_of (rubygems_first two_registries) two_registries \<and>
     fastly_policy pypi_first = Inr p \<and> fastly_policy rubygems_first = Inr p' \<and>
     IsAllowedIP (Some p) [151, 101, 0, 223] = (True, ''PyPI'') \<and>
     IsAllowedIP (Some p') [151, 101, 0, 223] = (True, ''RubyGems'')"
  using two_orders fastly_allowed by blast

text \<open>
  C35. A policy with one IPv4 network in CIDR notation allows exactly the addresses whose leading bits
  are those of the network: as a 4-byte address, or as the IPv4-mapped 16-byte form of one.
\<close>

theorem cidr_membership:
  assumes "length base = 4" "n \<le> 32"
    and "load_registries [(i, \<lparr>r_Name = nm, r_Hosts = hs, r_CIDRs = [ipv4_str base @ ''/'' @ dec_str n]\<rparr>)]
      = Inr rrs"
  shows "fst (IsAllowedIP (Some \<lparr>p_registries = rrs\<rparr>) ip) \<longleftrightarrow>
    (\<exists>q. (ip = q \<or> ip = v4InV6Prefix @ q) \<and> length q = 4 \<and>
       take n (ip_bits q) = take n (ip_bits base))"
proof -
  have t4: "To4 ip = Some q \<longleftrightarrow> (ip = q \<or> ip = v4InV6Prefix @ q) \<and> length q = 4" for q
  proof -
    have "length v4InV6Prefix = 12" by (simp add: v4InV6Prefix_def)
    moreover have "take 12 ip = v4InV6Prefix \<Longrightarrow> ip = v4InV6Prefix @ drop 12 ip"
      by (metis append_take_drop_id)
    ultimately show ?thesis by (auto simp: To4_def)
  qed
  show ?thesis
    using assms Contains_v4 [OF assms(1) refl, of n ip]
    by (auto simp: ParseCIDR_printed [OF assms(1,2), simplified] IsAllowedIP_def t4)
qed

theorem cidr_membership_witness:
  "\<exists>rrs. load_registries [(''k'', \<lparr>r_Name = ''n'', r_Hosts = [],
       r_CIDRs = [ipv4_str [13, 32, 0, 0] @ ''/'' @ dec_str 15]\<rparr>)] = Inr rrs \<and>
     fst (IsAllowedIP (Some \<lparr>p_registries = rrs\<rparr>) [13, 33, 7, 1])"
proof -
  obtain rrs where l: "load_registries [(''k'', \<lparr>r_Name = ''n'', r_Hosts = [],
       r_CIDRs = [ipv4_str [13, 32, 0, 0] @ ''/'' @ dec_str 15]\<rparr>)] = Inr rrs"
    using ParseCIDR_printed [of "[13, 32, 0, 0]" 15] by simp
  have "take 15 (ip_bits [13, 33, 7, 1]) = take 15 (ip_bits [13, 32, 0, 0])" by code_simp
  with cidr_membership [OF _ _ l, of "[13, 33, 7, 1]"] l show ?thesis by auto
qed

text \<open>
  The answer is a function of the address, not of its representation: an IPv4 address and its
  IPv4-mapped IPv6 form get the same answer and the same registry name from every policy.
\<close>

theorem allowed_mapped_same:
  assumes "length ip = 4"
  shows "IsAllowedIP p (v4InV6Prefix @ ip) = IsAllowedIP p ip"
  using assms by (rule policy.allowed_mapped)

theorem allowed_mapped_same_witness:
  "\<exists>p. fastly_policy pypi_first = Inr p \<and>
     IsAllowedIP (Some p) (v4InV6Prefix @ [151, 101, 0, 223]) = (True, ''PyPI'')"
  using fastly_allowed(1) allowed_mapped_same [of "[151, 101, 0, 223]"] by auto

end
