(* ===== verification/Proctree.thy ===== *)
theory Proctree
  imports Enricher
begin

text \<open>
  The user-space process tree, \<open>internal/proctree/proctree.go\<close>: a map from pid to node, filled
  from exec events. The lock makes every method one atomic step, so the methods are functions
  on the map. \<open>Chain\<close> follows parent links; it stops at the root, at an untracked pid or at a
  pid it has already visited, so it terminates on every map, cyclic ones included.
\<close>

record Node =
  n_PID :: u32
  n_PPID :: u32
  n_RootPID :: u32
  n_Comm :: string
  n_RootComm :: string
  n_Cmdline :: string
  n_Phase :: Phase
  n_ContainerID :: string
  n_Runtime :: string
  n_PodName :: string
  n_Namespace :: string

record Tree =
  t_nodes :: "(u32, Node) fmap"

definition New :: Tree where
  "New = \<lparr>t_nodes = fmempty\<rparr>"

text \<open>\<open>/proc/pid/cmdline\<close> with its NULs replaced by spaces.\<close>

definition readCmdline :: "FileSystem \<Rightarrow> u32 \<Rightarrow> string" where
  "readCmdline fs pid =
     (case fs (proc_path pid ''cmdline'') of
        None \<Rightarrow> []
      | Some data \<Rightarrow> TrimSpace (map (\<lambda>b. if b = CHR 0x00 then CHR '' '' else b) data))"

definition mk_node :: "FileSystem \<Rightarrow> ChainEvent \<Rightarrow> Node" where
  "mk_node fs evt =
     (let cmdline = readCmdline fs (e_Pid evt); ci = Enrich fs (e_Pid evt) in
      \<lparr>n_PID = e_Pid evt, n_PPID = e_Ppid evt, n_RootPID = e_RootPid evt,
       n_Comm = CommStr evt, n_RootComm = RootCommStr evt, n_Cmdline = cmdline,
       n_Phase = e_Phase evt, n_ContainerID = ci_ContainerID ci, n_Runtime = ci_Runtime ci,
       n_PodName = ci_PodName ci, n_Namespace = ci_Namespace ci\<rparr>)"

definition Add :: "FileSystem \<Rightarrow> ChainEvent \<Rightarrow> Tree \<Rightarrow> Tree" where
  "Add fs evt t = t\<lparr>t_nodes := fmupd (e_Pid evt) (mk_node fs evt) (t_nodes t)\<rparr>"

definition Size :: "Tree \<Rightarrow> nat" where
  "Size t = fcard (fmdom (t_nodes t))"

definition Remove :: "u32 \<Rightarrow> Tree \<Rightarrow> Tree" where
  "Remove pid t = t\<lparr>t_nodes := fmdrop pid (t_nodes t)\<rparr>"

definition Get :: "Tree \<Rightarrow> u32 \<Rightarrow> Node option" where
  "Get t pid = fmlookup (t_nodes t) pid"

text \<open>The loop of \<open>Chain\<close>; its result is in the order the nodes are visited.\<close>

function chain_loop :: "(u32, Node) fmap \<Rightarrow> u32 set \<Rightarrow> u32 \<Rightarrow> Node list" where
  "chain_loop nodes seen cur =
     (if cur \<in> seen then []
      else case fmlookup nodes cur of
        None \<Rightarrow> []
      | Some n \<Rightarrow>
          n # (if n_PID n = n_RootPID n then []
               else chain_loop nodes (insert cur seen) (n_PPID n)))"
  by pat_completeness auto
termination
proof (relation "measure (\<lambda>(nodes, seen, cur). card (fset (fmdom nodes) - seen))")
  fix nodes :: "(u32, Node) fmap" and seen cur n
  assume "cur \<notin> seen" "fmlookup nodes cur = Some n"
  then have "fset (fmdom nodes) - insert cur seen \<subset> fset (fmdom nodes) - seen"
    using fmdomI [of nodes cur n] by blast
  moreover have "finite (fset (fmdom nodes) - seen)" by simp
  ultimately have "card (fset (fmdom nodes) - insert cur seen) < card (fset (fmdom nodes) - seen)"
    by (metis psubset_card_mono)
  then show "((nodes, insert cur seen, n_PPID n), (nodes, seen, cur))
      \<in> measure (\<lambda>(nodes, seen, cur). card (fset (fmdom nodes) - seen))" by simp
qed simp

declare chain_loop.simps [simp del]

definition Chain :: "Tree \<Rightarrow> u32 \<Rightarrow> Node list" where
  "Chain t pid = rev (chain_loop (t_nodes t) {} pid)"

definition FormatChain :: "Tree \<Rightarrow> u32 \<Rightarrow> string" where
  "FormatChain t pid =
     Join ('' '' @ arrow @ '' '')
       (map (\<lambda>n. n_Comm n @ ''('' @ dec_str (unat (n_PID n)) @ '')'') (Chain t pid))"

section \<open>The tree as a keyed store\<close>

lemma Get_New [simp]: "Get New pid = None"
  by (simp add: Get_def New_def)

lemma Get_Add: "Get (Add fs evt t) pid = (if pid = e_Pid evt then Some (mk_node fs evt) else Get t pid)"
  by (simp add: Get_def Add_def)

lemma Get_Remove: "Get (Remove p t) pid = (if pid = p then None else Get t pid)"
  by (simp add: Get_def Remove_def)

text \<open>An observation is an exec event with the state of \<open>/proc\<close> when it is handled.\<close>

definition observe :: "FileSystem \<times> ChainEvent \<Rightarrow> Tree \<Rightarrow> Tree" where
  "observe ob t = Add (fst ob) (snd ob) t"

interpretation tree: keyed_store Get observe "\<lambda>ob. e_Pid (snd ob)" "\<lambda>ob. mk_node (fst ob) (snd ob)" New
  by unfold_locales (auto simp: observe_def Get_Add)

section \<open>Well-formed trees\<close>

text \<open>Every node is stored under its own pid.\<close>

definition tree_wf :: "Tree \<Rightarrow> bool" where
  "tree_wf t \<longleftrightarrow> (\<forall>pid n. Get t pid = Some n \<longrightarrow> n_PID n = pid)"

lemma mk_node_PID [simp]: "n_PID (mk_node fs evt) = e_Pid evt"
  by (simp add: mk_node_def Let_def)

lemma tree_wf_New: "tree_wf New"
  by (simp add: tree_wf_def)

lemma tree_wf_Add: "tree_wf t \<Longrightarrow> tree_wf (Add fs evt t)"
  by (auto simp: tree_wf_def Get_Add)

lemma tree_wf_Remove: "tree_wf t \<Longrightarrow> tree_wf (Remove pid t)"
  by (auto simp: tree_wf_def Get_Remove)

lemma Size_Add:
  "Size (Add fs evt t) = (if Get t (e_Pid evt) = None then Suc (Size t) else Size t)"
  by (auto simp: Size_def Add_def Get_def fmlookup_dom_iff finsert_absorb fcard_finsert_disjoint
      dest: fmdomI)

section \<open>The chain\<close>

text \<open>Links of a visited path: each node's parent pid is the pid of the next.\<close>

fun linked :: "Node list \<Rightarrow> bool" where
  "linked (a # b # ns) \<longleftrightarrow> n_PPID a = n_PID b \<and> n_PID a \<noteq> n_RootPID a \<and> linked (b # ns)"
| "linked _ \<longleftrightarrow> True"

definition nodes_wf :: "(u32, Node) fmap \<Rightarrow> bool" where
  "nodes_wf nodes \<longleftrightarrow> (\<forall>pid n. fmlookup nodes pid = Some n \<longrightarrow> n_PID n = pid)"

lemma tree_wf_nodes: "tree_wf t \<longleftrightarrow> nodes_wf (t_nodes t)"
  by (simp add: tree_wf_def nodes_wf_def Get_def)

lemma chain_loop_seen [simp]: "cur \<in> seen \<Longrightarrow> chain_loop nodes seen cur = []"
  by (subst chain_loop.simps) simp

lemma chain_loop_None [simp]: "fmlookup nodes cur = None \<Longrightarrow> chain_loop nodes seen cur = []"
  by (subst chain_loop.simps) simp

lemma chain_loop_Some:
  "cur \<notin> seen \<Longrightarrow> fmlookup nodes cur = Some n \<Longrightarrow>
   chain_loop nodes seen cur =
     n # (if n_PID n = n_RootPID n then [] else chain_loop nodes (insert cur seen) (n_PPID n))"
  by (subst chain_loop.simps) simp

text \<open>Induction over the visited path, one case for each way the loop can go on or stop.\<close>

lemma chain_loop_induct [case_names stop root step]:
  assumes "\<And>seen cur. cur \<in> seen \<or> fmlookup nodes cur = None \<Longrightarrow> P seen cur []"
    and "\<And>seen cur n. cur \<notin> seen \<Longrightarrow> fmlookup nodes cur = Some n \<Longrightarrow>
      n_PID n = n_RootPID n \<Longrightarrow> P seen cur [n]"
    and "\<And>seen cur n. cur \<notin> seen \<Longrightarrow> fmlookup nodes cur = Some n \<Longrightarrow> n_PID n \<noteq> n_RootPID n \<Longrightarrow>
      P (insert cur seen) (n_PPID n) (chain_loop nodes (insert cur seen) (n_PPID n)) \<Longrightarrow>
      P seen cur (n # chain_loop nodes (insert cur seen) (n_PPID n))"
  shows "P seen cur (chain_loop nodes seen cur)"
  using assms
proof (induction nodes seen cur rule: chain_loop.induct)
  case (1 nodes seen cur)
  show ?case
  proof (cases "cur \<in> seen \<or> fmlookup nodes cur = None")
    case True
    with "1.prems"(1) show ?thesis by auto
  next
    case False
    then obtain n where n: "cur \<notin> seen" "fmlookup nodes cur = Some n" by auto
    show ?thesis
    proof (cases "n_PID n = n_RootPID n")
      case True
      with "1.prems"(2) n show ?thesis by (simp add: chain_loop_Some)
    next
      case r: False
      have "P (insert cur seen) (n_PPID n) (chain_loop nodes (insert cur seen) (n_PPID n))"
        using "1.IH" [OF n r] "1.prems" by blast
      with "1.prems"(3) n r show ?thesis by (simp add: chain_loop_Some)
    qed
  qed
qed

lemma chain_loop_nodes:
  assumes wf: "nodes_wf nodes"
  shows "\<forall>n \<in> set (chain_loop nodes seen cur). fmlookup nodes (n_PID n) = Some n \<and> n_PID n \<notin> seen"
  by (induction rule: chain_loop_induct [where nodes = nodes])
    (use wf in \<open>auto simp: nodes_wf_def\<close>)

lemma chain_loop_distinct:
  assumes wf: "nodes_wf nodes"
  shows "distinct (map n_PID (chain_loop nodes seen cur))"
proof (induction rule: chain_loop_induct [where nodes = nodes])
  case (step seen cur n)
  then have "n_PID n = cur" using wf by (simp add: nodes_wf_def)
  with step chain_loop_nodes [OF wf, of "insert cur seen" "n_PPID n"] show ?case by auto
qed auto

lemma chain_loop_hd: "chain_loop nodes seen cur = n # ns \<Longrightarrow> fmlookup nodes cur = Some n"
  by (subst (asm) chain_loop.simps) (auto split: if_splits option.splits)

lemma chain_loop_linked:
  assumes wf: "nodes_wf nodes"
  shows "linked (chain_loop nodes seen cur)"
proof (induction rule: chain_loop_induct [where nodes = nodes])
  case (step seen cur n)
  show ?case
  proof (cases "chain_loop nodes (insert cur seen) (n_PPID n)")
    case (Cons m ms)
    with chain_loop_hd [OF Cons] step wf show ?thesis by (simp add: nodes_wf_def)
  qed simp
qed auto

text \<open>Why the loop stopped: at a root, at an untracked parent, or back at a visited node.\<close>

definition chain_end :: "(u32, Node) fmap \<Rightarrow> u32 set \<Rightarrow> Node list \<Rightarrow> bool" where
  "chain_end nodes seen ns \<longleftrightarrow>
     (let l = last ns in n_PID l = n_RootPID l \<or> fmlookup nodes (n_PPID l) = None \<or>
        n_PPID l \<in> seen \<union> n_PID ` set ns)"

lemma chain_loop_end:
  assumes wf: "nodes_wf nodes"
  shows "chain_loop nodes seen cur \<noteq> [] \<longrightarrow> chain_end nodes seen (chain_loop nodes seen cur)"
proof (induction rule: chain_loop_induct [where nodes = nodes])
  case (step seen cur n)
  have n: "n_PID n = cur" using wf step by (simp add: nodes_wf_def)
  show ?case
  proof (cases "chain_loop nodes (insert cur seen) (n_PPID n)")
    case Nil
    then have "n_PPID n \<in> insert cur seen \<or> fmlookup nodes (n_PPID n) = None"
      by (subst (asm) chain_loop.simps) (auto split: if_splits option.splits)
    with Nil n show ?thesis by (auto simp: chain_end_def Let_def)
  next
    case (Cons m ms)
    with step n show ?thesis by (auto simp: chain_end_def Let_def)
  qed
qed (auto simp: chain_end_def)

lemma Chain_length: "tree_wf t \<Longrightarrow> length (Chain t pid) \<le> Size t"
proof -
  assume "tree_wf t"
  then have wf: "nodes_wf (t_nodes t)" by (simp add: tree_wf_nodes)
  let ?c = "chain_loop (t_nodes t) {} pid"
  have "set (map n_PID ?c) \<subseteq> fset (fmdom (t_nodes t))"
    using chain_loop_nodes [OF wf, of "{}" pid] by (auto intro: fmdomI)
  then have "card (set (map n_PID ?c)) \<le> Size t"
    by (simp add: Size_def fcard.rep_eq card_mono)
  then show ?thesis
    using distinct_card [OF chain_loop_distinct [OF wf]] by (simp add: Chain_def)
qed

section \<open>Properties of the tree\<close>

text \<open>
  Links in the order \<open>Chain\<close> returns them: each node is the parent of the next one, which is not
  a root.
\<close>

fun ancestry :: "Node list \<Rightarrow> bool" where
  "ancestry [] \<longleftrightarrow> True"
| "ancestry [n] \<longleftrightarrow> True"
| "ancestry (p # n # ns) \<longleftrightarrow> n_PPID n = n_PID p \<and> n_PID n \<noteq> n_RootPID n \<and> ancestry (n # ns)"

lemma ancestry_snoc:
  "ancestry (ns @ [p, n]) \<longleftrightarrow> ancestry (ns @ [p]) \<and> n_PPID n = n_PID p \<and> n_PID n \<noteq> n_RootPID n"
  by (induction ns rule: ancestry.induct) auto

lemma ancestry_rev: "linked ns \<Longrightarrow> ancestry (rev ns)"
proof (induction ns rule: linked.induct)
  case (1 n m ns)
  then show ?case using ancestry_snoc [of "rev ns" m n] by simp
qed auto

lemma Chain_untracked: "Get t pid = None \<Longrightarrow> Chain t pid = []"
  by (simp add: Chain_def Get_def)

lemma Chain_last: "Get t pid = Some n \<Longrightarrow> Chain t pid \<noteq> [] \<and> last (Chain t pid) = n"
  by (simp add: Chain_def Get_def chain_loop_Some)

text \<open>
  C16. The ancestry of a process. In a tree built by the program, \<open>Chain\<close> of a tracked pid is a
  non-empty path that ends at that process, whose nodes are the tracked nodes of their pids,
  each the parent of the next and only the first possibly a root, without repetition and at most as many as there are processes;
  and it is as long as it can be: its first node is a root, or its parent is not tracked, or its
  parent is already on the path (pid reuse has made a cycle).
\<close>

theorem Chain_path:
  assumes "tree_wf t" "Get t pid = Some n"
  defines "ns \<equiv> Chain t pid"
  shows "ns \<noteq> [] \<and> last ns = n \<and> ancestry ns \<and> distinct (map n_PID ns) \<and>
    list_all (\<lambda>m. Get t (n_PID m) = Some m) ns \<and> length ns \<le> Size t \<and>
    (n_PID (hd ns) = n_RootPID (hd ns) \<or> Get t (n_PPID (hd ns)) = None \<or>
     n_PPID (hd ns) \<in> n_PID ` set ns)"
proof (intro conjI)
  have wf: "nodes_wf (t_nodes t)" using assms(1) by (simp add: tree_wf_nodes)
  let ?c = "chain_loop (t_nodes t) {} pid"
  have ns: "ns = rev ?c" by (simp add: ns_def Chain_def)
  show "ns \<noteq> []" "last ns = n" using Chain_last [OF assms(2)] by (simp_all add: ns_def)
  show "ancestry ns" using ancestry_rev [OF chain_loop_linked [OF wf]] by (simp add: ns)
  show "distinct (map n_PID ns)" using chain_loop_distinct [OF wf, of "{}" pid]
    by (simp add: ns rev_map [symmetric])
  show "list_all (\<lambda>m. Get t (n_PID m) = Some m) ns"
    using chain_loop_nodes [OF wf, of "{}" pid] by (simp add: ns Get_def list_all_iff)
  show "length ns \<le> Size t" unfolding ns_def using assms(1) by (rule Chain_length)
  have ne: "?c \<noteq> []" using \<open>ns \<noteq> []\<close> by (simp add: ns)
  then have "hd ns = last ?c" by (simp add: ns hd_rev)
  moreover have "set ns = set ?c" by (simp add: ns)
  ultimately show "n_PID (hd ns) = n_RootPID (hd ns) \<or> Get t (n_PPID (hd ns)) = None \<or>
    n_PPID (hd ns) \<in> n_PID ` set ns"
    using chain_loop_end [OF wf, of "{}" pid] ne by (simp add: chain_end_def Get_def Let_def)
qed

text \<open>A tree of three processes whose parent links form a cycle.\<close>

definition exec_evt :: "u32 \<Rightarrow> u32 \<Rightarrow> u32 \<Rightarrow> ChainEvent" where
  "exec_evt pid ppid root =
     zero_event\<lparr>e_EventType := EvtExec, e_Pid := pid, e_Ppid := ppid, e_RootPid := root\<rparr>"

definition no_files :: FileSystem where
  "no_files path = None"

definition cyclic_tree :: Tree where
  "cyclic_tree = fold observe [(no_files, exec_evt 11 13 1), (no_files, exec_evt 12 11 1),
     (no_files, exec_evt 13 12 1)] New"

lemma tree_wf_observe: "tree_wf t \<Longrightarrow> tree_wf (fold observe obs t)"
  by (induction obs arbitrary: t) (auto simp: observe_def tree_wf_Add)

theorem Chain_path_witness:
  "tree_wf cyclic_tree \<and> Get cyclic_tree 13 = Some (mk_node no_files (exec_evt 13 12 1)) \<and>
   length (Chain cyclic_tree 13) \<le> Size cyclic_tree"
proof -
  have wf: "tree_wf cyclic_tree"
    unfolding cyclic_tree_def by (rule tree_wf_observe) (rule tree_wf_New)
  have g: "Get cyclic_tree 13 = Some (mk_node no_files (exec_evt 13 12 1))"
    by (simp add: cyclic_tree_def observe_def Get_Add exec_evt_def)
  from wf g Chain_path [OF wf g] show ?thesis by blast
qed

text \<open>
  What the tree holds after any run of exec events: for each pid, the node of the last exec event
  of that pid, and nothing for a pid that was never seen. So a reused pid gets the attributes of
  the new process.
\<close>

theorem tree_last_exec:
  "Get (fold observe obs New) pid =
     map_option (\<lambda>ob. mk_node (fst ob) (snd ob)) (find (\<lambda>ob. e_Pid (snd ob) = pid) (rev obs)) \<and>
   tree_wf (fold observe obs New)"
  using tree.get_run_empty [of obs pid] tree_wf_observe [OF tree_wf_New] by simp

lemma Size_Remove: "Size (Remove pid t) = Size t - (if Get t pid = None then 0 else 1)"
proof (cases "Get t pid")
  case None
  then have "pid |\<notin>| fmdom (t_nodes t)" by (simp add: Get_def fmlookup_dom_iff)
  then show ?thesis using None by (simp add: Size_def Remove_def)
next
  case (Some n)
  then have "pid |\<in>| fmdom (t_nodes t)" by (auto simp: Get_def intro: fmdomI)
  then show ?thesis using Some by (simp add: Size_def Remove_def)
qed

text \<open>
  \<open>Add\<close>, \<open>Remove\<close>, \<open>Get\<close> and \<open>Size\<close> fit together: an added pid is found with its node, a
  removed one is not, other pids are not touched, the size counts the tracked pids, and removing
  a process that had not been tracked before it was added gives the old tree back.
\<close>

theorem Add_Remove:
  "Get (Add fs evt t) (e_Pid evt) = Some (mk_node fs evt) \<and> Get (Remove pid t) pid = None \<and>
   (q = e_Pid evt \<or> Get (Add fs evt t) q = Get t q) \<and>
   (q = pid \<or> Get (Remove pid t) q = Get t q) \<and>
   Size t = card {p. Get t p \<noteq> None} \<and>
   Size (Add fs evt t) = Size t + (if Get t (e_Pid evt) = None then 1 else 0) \<and>
   Size (Remove pid t) = Size t - (if Get t pid = None then 0 else 1) \<and>
   (Get t (e_Pid evt) \<noteq> None \<or> Remove (e_Pid evt) (Add fs evt t) = t)"
proof -
  have "{p. Get t p \<noteq> None} = fset (fmdom (t_nodes t))"
    by (auto simp: Get_def intro: fmdomI)
  then have "Size t = card {p. Get t p \<noteq> None}" by (simp add: Size_def fcard.rep_eq)
  moreover have "Remove (e_Pid evt) (Add fs evt t) = t" if "Get t (e_Pid evt) = None"
    using that by (cases t) (auto simp: Remove_def Add_def Get_def intro: fmap_ext)
  ultimately show ?thesis
    by (simp add: Get_Add Get_Remove Size_Add Size_Remove)
qed

section \<open>The loops of \<open>Chain\<close> step by step\<close>

text \<open>
  \<open>Chain\<close> as the code runs it, with its variables \<open>seen\<close>, \<open>cur\<close> and \<open>chain\<close>: one unit of fuel is
  one iteration of the loop, and \<open>None\<close> means that it has not ended yet. The second loop
  reverses the slice in place; for an empty slice the code has \<open>j = -1\<close>, here 0, and neither
  enters the loop.
\<close>

fun chain_steps ::
  "nat \<Rightarrow> (u32, Node) fmap \<Rightarrow> u32 set \<Rightarrow> u32 \<Rightarrow> Node list \<Rightarrow> Node list option" where
  "chain_steps 0 nodes seen cur chain = None"
| "chain_steps (Suc k) nodes seen cur chain =
     (if cur \<in> seen then Some chain
      else
        (let seen = insert cur seen in
         case fmlookup nodes cur of
           None \<Rightarrow> Some chain
         | Some n \<Rightarrow>
             (let chain = chain @ [n] in
              if n_PID n = n_RootPID n then Some chain
              else chain_steps k nodes seen (n_PPID n) chain)))"

function reverse_loop :: "nat \<Rightarrow> nat \<Rightarrow> 'a list \<Rightarrow> 'a list" where
  "reverse_loop i j xs =
     (if i < j then reverse_loop (i + 1) (j - 1) (xs[i := xs ! j, j := xs ! i]) else xs)"
  by pat_completeness auto
termination by (relation "measure (\<lambda>(i, j, xs). j - i)") auto

declare reverse_loop.simps [simp del]

lemma chain_steps_loop:
  assumes "card (fset (fmdom nodes) - seen) < k"
  shows "chain_steps k nodes seen cur chain = Some (chain @ chain_loop nodes seen cur)"
  using assms
proof (induction k arbitrary: seen cur chain)
  case (Suc k)
  show ?case
  proof (cases "cur \<in> seen \<or> fmlookup nodes cur = None")
    case True
    then show ?thesis by (auto split: option.split)
  next
    case False
    then obtain n where n: "cur \<notin> seen" "fmlookup nodes cur = Some n" by auto
    have "card (fset (fmdom nodes) - insert cur seen) < card (fset (fmdom nodes) - seen)"
      using n fmdomI [OF n(2)] by (intro psubset_card_mono) auto
    with Suc.prems have "card (fset (fmdom nodes) - insert cur seen) < k" by simp
    with Suc.IH n show ?thesis by (simp add: chain_loop_Some)
  qed
qed simp

lemma chain_loop_length: "length (chain_loop nodes seen cur) \<le> card (fset (fmdom nodes) - seen)"
proof (induction rule: chain_loop_induct [where nodes = nodes and
      P = "\<lambda>seen cur ns. length ns \<le> card (fset (fmdom nodes) - seen)"])
  case (root seen cur n)
  then have "cur \<in> fset (fmdom nodes) - seen" by (auto dest: fmdomI)
  then have "0 < card (fset (fmdom nodes) - seen)" by (auto simp: card_gt_0_iff)
  then show ?case by simp
next
  case (step seen cur n)
  have "card (fset (fmdom nodes) - insert cur seen) < card (fset (fmdom nodes) - seen)"
    using step by (intro psubset_card_mono) (auto dest: fmdomI)
  with step show ?case by simp
qed simp

lemma reverse_loop_middle:
  "length ys = length zs \<Longrightarrow> reverse_loop (length ys) (length ys + length xs - 1) (ys @ xs @ zs) = ys @ rev xs @ zs"
proof (induction "length xs" arbitrary: xs ys zs rule: less_induct)
  case less
  show ?case
  proof (cases "length xs \<le> 1")
    case True
    then have "rev xs = xs" by (cases xs) auto
    moreover have "\<not> length ys < length ys + length xs - 1" using True by linarith
    ultimately show ?thesis by (subst reverse_loop.simps) (simp only: if_False)
  next
    case False
    then obtain a ms b where xs: "xs = a # ms @ [b]"
      by (cases xs; cases "tl xs" rule: rev_cases) auto
    have "reverse_loop (length ys) (length ys + length xs - 1) (ys @ xs @ zs) =
        reverse_loop (length (ys @ [b])) (length (ys @ [b]) + length ms - 1) ((ys @ [b]) @ ms @ (a # zs))"
      by (subst reverse_loop.simps) (simp add: xs nth_append list_update_append)
    also have "\<dots> = (ys @ [b]) @ rev ms @ (a # zs)"
      by (rule less.hyps) (simp_all add: xs less.prems)
    finally show ?thesis by (simp add: xs)
  qed
qed

text \<open>
  C17. \<open>Chain\<close> always returns, cycles of parent ids included: its loop ends after at most one iteration more
  than there are tracked processes, and the in-place reversal then gives the chain, which has at
  most one entry for each tracked process.
\<close>

theorem Chain_terminates:
  assumes "Size t < k"
  shows "\<exists>chain. chain_steps k (t_nodes t) {} pid [] = Some chain \<and>
    reverse_loop 0 (length chain - 1) chain = Chain t pid \<and> length (Chain t pid) \<le> Size t"
  using assms chain_steps_loop [of "t_nodes t" "{}" k pid "[]"] chain_loop_length [of "t_nodes t" "{}" pid]
    reverse_loop_middle [of "[]" "[]" "chain_loop (t_nodes t) {} pid"]
  by (simp add: Chain_def Size_def fcard.rep_eq)

text \<open>Two processes that are each other's parent.\<close>

definition parent_cycle :: Tree where
  "parent_cycle =
     Add no_files (zero_event\<lparr>e_Pid := 7, e_Ppid := 8, e_RootPid := 1\<rparr>)
       (Add no_files (zero_event\<lparr>e_Pid := 8, e_Ppid := 7, e_RootPid := 1\<rparr>) New)"

theorem Chain_terminates_witness:
  "\<exists>chain. chain_steps 3 (t_nodes parent_cycle) {} 7 [] = Some chain \<and> length (Chain parent_cycle 7) \<le> 2"
proof -
  have s: "Size parent_cycle = 2" by (simp add: parent_cycle_def Size_Add Get_Add) (simp add: Size_def Get_def New_def)
  then have "Size parent_cycle < 3" by simp
  from Chain_terminates [OF this, of 7] s show ?thesis by auto
qed

end
