(* ===== verification/Detector.thy ===== *)
theory Detector
  imports Policy Proctree
begin

text \<open>
  The rule engine, \<open>internal/detector/detector.go\<close>. \<open>Check\<close> dispatches on the event type to one
  function per group of rules; each returns the alerts in the order the code appends them, with
  the exact description. The detector reads the process tree and the policy it was built with;
  the parameter \<open>pr\<close> is the table of printable characters of \<open>%q\<close>.
\<close>

definition sensitivePathPrefixes :: "string list" where
  "sensitivePathPrefixes =
     [''/root/.ssh/'', ''/.ssh/'', ''/.aws/'', ''/.gcp/'', ''/.gnupg/'', ''/etc/shadow'',
      ''/etc/gshadow'']"

definition sensitivePathSuffixes :: "string list" where
  "sensitivePathSuffixes =
     [''id_rsa'', ''id_ecdsa'', ''id_ed25519'', ''.pem'', ''.key'', ''credentials'', ''secret'',
      ''token'']"

definition sensitivePathContains :: "string list" where
  "sensitivePathContains = [''.env'']"

definition installPathPrefixes :: "string list" where
  "installPathPrefixes =
     [''/usr/bin/'', ''/usr/sbin/'', ''/usr/local/bin/'', ''/usr/local/sbin/'', ''/bin/'',
      ''/sbin/'', ''/etc/'']"

definition isSensitivePath :: "string \<Rightarrow> bool" where
  "isSensitivePath path =
     (if list_ex (\<lambda>p. Contains path p) sensitivePathPrefixes then True
      else if list_ex (\<lambda>s. HasSuffix path s) sensitivePathSuffixes then True
      else if list_ex (\<lambda>c. Contains path c) sensitivePathContains then True
      else False)"

definition isInstallPath :: "string \<Rightarrow> bool" where
  "isInstallPath path = list_ex (\<lambda>p. HasPrefix path p) installPathPrefixes"

record Detector =
  d_tree :: Tree
  d_policy :: "Policy option"

section \<open>The rules\<close>

definition checkExec :: "(nat \<Rightarrow> bool) \<Rightarrow> Detector \<Rightarrow> ChainEvent \<Rightarrow> Alert list" where
  "checkExec pr d evt =
     (let comm = CommStr evt;
          chain = FormatChain (d_tree d) (e_Pid evt);
          argv = ArgvStr evt;
          argv = (if argv \<noteq> [] then '' '' @ argv else argv)
      in
      (if e_ExecFlags evt AND ExecFlagTempPath \<noteq> 0
       then [mk_alert evt ''exec-from-temp'' SevHigh
         (comm @ argv @ '' executed from temporary filesystem path '' @ Quote pr (PathStr evt) @
          ''. Chain: '' @ chain)] else []) @
      (if e_ExecFlags evt AND ExecFlagIsShell \<noteq> 0 \<and> e_ExecFlags evt AND ExecFlagStdinPipe \<noteq> 0
       then [mk_alert evt ''shell-stdin-pipe'' SevCritical
         (comm @ argv @ '' executed with piped stdin '' @ em_dash @
          '' possible curl|bash attack. Chain: '' @ chain)] else []) @
      (if e_EnvFlags evt AND EnvFlagLdPreload \<noteq> 0
       then [mk_alert evt ''ld-preload-injection'' SevCritical
         (comm @ argv @ '' launched with LD_PRELOAD set '' @ em_dash @
          '' possible library injection. Chain: '' @ chain)] else []) @
      (if e_EnvFlags evt AND EnvFlagLdLibrary \<noteq> 0
       then [mk_alert evt ''ld-library-path-redirect'' SevHigh
         (comm @ argv @ '' launched with LD_LIBRARY_PATH '' @ em_dash @
          '' possible linker hijack. Chain: '' @ chain)] else []) @
      (let credFlags = e_EnvFlags evt AND NOT (EnvFlagLdPreload OR EnvFlagLdLibrary) in
       if credFlags \<noteq> 0
       then [mk_alert evt ''credential-in-env'' SevHigh
         (comm @ argv @ '' launched with credential env vars ['' @ Join '', '' (EnvFlagNames evt) @
          '']. Chain: '' @ chain)] else []))"

definition checkNet :: "Detector \<Rightarrow> ChainEvent \<Rightarrow> Alert list" where
  "checkNet d evt =
     (let phase = e_Phase evt;
          comm = CommStr evt;
          chain = FormatChain (d_tree d) (e_Pid evt);
          ip = DstIP evt;
          ipStr = IP_String ip;
          port = dec_str (unat (e_Dport evt));
          unknown =
            (let sev = (if phase = PhasePostinst \<or> phase = PhaseBuild then SevHigh else SevMedium)
             in [mk_alert evt ''unknown-network'' sev
               (comm @ '' (phase='' @ Phase_String phase @ '') connected to unknown IP '' @ ipStr @
                '':'' @ port @ ''. Chain: '' @ chain)])
      in
      if phase = PhaseCompile \<or> phase = PhaseLink
      then [mk_alert evt ''compiler-network'' SevCritical
        (comm @ '' (phase='' @ Phase_String phase @ '') opened network connection to '' @ ipStr @
         '':'' @ port @ '' '' @ em_dash @ '' compilers must not make network calls. Chain: '' @ chain)]
      else case d_policy d of
        None \<Rightarrow> unknown
      | Some p \<Rightarrow>
          (let (allowed, registry) = IsAllowedIP (Some p) ip in
           if allowed then
             (if phase = PhaseDownload \<or> phase = PhaseInstall then []
              else [mk_alert evt ''unexpected-phase-network'' SevLow
                (comm @ '' (phase='' @ Phase_String phase @ '') connected to known registry '' @
                 registry @ '' ('' @ ipStr @ '':'' @ port @
                 '') outside download/install phase. Chain: '' @ chain)])
           else unknown))"

definition checkFileRead :: "(nat \<Rightarrow> bool) \<Rightarrow> Detector \<Rightarrow> ChainEvent \<Rightarrow> Alert list" where
  "checkFileRead pr d evt =
     (let path = PathStr evt;
          comm = CommStr evt;
          chain = FormatChain (d_tree d) (e_Pid evt)
      in
      if \<not> isSensitivePath path then []
      else let sev = (if e_Phase evt = PhaseCompile \<or> e_Phase evt = PhaseLink then SevCritical
                      else SevHigh)
      in [mk_alert evt ''sensitive-file-read'' sev
        (comm @ '' (phase='' @ Phase_String (e_Phase evt) @ '') read sensitive path '' @
         Quote pr path @ ''. Chain: '' @ chain)])"

definition checkFileWrite :: "(nat \<Rightarrow> bool) \<Rightarrow> Detector \<Rightarrow> ChainEvent \<Rightarrow> Alert list" where
  "checkFileWrite pr d evt =
     (let path = PathStr evt;
          comm = CommStr evt;
          phase = e_Phase evt;
          chain = FormatChain (d_tree d) (e_Pid evt)
      in
      if \<not> isInstallPath path then []
      else if phase = PhaseInstall then []
      else
        (let sev = SevMedium;
             rule = ''unexpected-install-write'';
             desc = comm @ '' (phase='' @ Phase_String phase @ '') opened '' @ Quote pr path @
               '' for writing '' @ em_dash @ '' unexpected write to system path. Chain: '' @ chain;
             (sev, rule, desc) =
               (if phase = PhaseCompile \<or> phase = PhaseBuild
                then (SevHigh, ''build-writes-system-path'',
                  comm @ '' (phase='' @ Phase_String phase @ '') wrote to system binary path '' @
                  Quote pr path @ '' '' @ em_dash @ '' possible binary injection. Chain: '' @ chain)
                else (sev, rule, desc));
             (sev, rule) =
               (if phase = PhasePostinst then (SevHigh, ''postinst-writes-system-path'')
                else (sev, rule))
         in [mk_alert evt rule sev desc]))"

definition checkMemfd :: "(nat \<Rightarrow> bool) \<Rightarrow> Detector \<Rightarrow> ChainEvent \<Rightarrow> Alert list" where
  "checkMemfd pr d evt =
     (let comm = CommStr evt; chain = FormatChain (d_tree d) (e_Pid evt) in
      [mk_alert evt ''memfd-create'' SevHigh
        (comm @ '' created anonymous memory file '' @ Quote pr (MemfdNameStr evt) @
         '' (flags=0x'' @ hex_str (unat (e_MemfdFlags evt)) @ '') '' @ em_dash @
         '' possible fileless payload staging. Chain: '' @ chain)])"

definition checkExecveat :: "Detector \<Rightarrow> ChainEvent \<Rightarrow> Alert list" where
  "checkExecveat d evt =
     (let comm = CommStr evt; chain = FormatChain (d_tree d) (e_Pid evt) in
      [mk_alert evt ''execveat-anon'' SevCritical
        (comm @ '' executed from anonymous fd (AT_EMPTY_PATH) '' @ em_dash @
         '' fileless execution. Chain: '' @ chain)])"

definition checkChmod :: "(nat \<Rightarrow> bool) \<Rightarrow> Detector \<Rightarrow> ChainEvent \<Rightarrow> Alert list" where
  "checkChmod pr d evt =
     (let comm = CommStr evt;
          path = PathStr evt;
          chain = FormatChain (d_tree d) (e_Pid evt);
          mode = e_NewMode evt;
          perm = fmt_04o (unat (mode AND 4095));
          rule = ''chmod-exec-bit'';
          sev = e_Severity evt;
          desc = comm @ '' (phase='' @ Phase_String (e_Phase evt) @ '') chmod '' @ perm @ '' on '' @
            Quote pr path @ ''. Chain: '' @ chain;
          (rule, sev, desc) =
            (if mode AND 3072 \<noteq> 0
             then (''chmod-suid-sgid'', SevCritical,
               comm @ '' (phase='' @ Phase_String (e_Phase evt) @ '') set SUID/SGID bits (mode='' @
               perm @ '') on '' @ Quote pr path @ '' '' @ em_dash @
               '' privilege escalation risk. Chain: '' @ chain)
             else (rule, sev, desc))
      in [mk_alert evt rule sev desc])"

definition checkDns :: "(nat \<Rightarrow> bool) \<Rightarrow> Detector \<Rightarrow> ChainEvent \<Rightarrow> Alert list" where
  "checkDns pr d evt =
     (let phase = e_Phase evt;
          comm = CommStr evt;
          hostname = PathStr evt;
          chain = FormatChain (d_tree d) (e_Pid evt)
      in
      if phase \<noteq> PhaseCompile \<and> phase \<noteq> PhaseLink then []
      else [mk_alert evt ''compiler-dns-lookup'' SevCritical
        (comm @ '' (phase='' @ Phase_String phase @ '') resolved hostname '' @ Quote pr hostname @
         '' '' @ em_dash @ '' compilers must not make DNS lookups. Chain: '' @ chain)])"

definition checkBpfLoad :: "Detector \<Rightarrow> ChainEvent \<Rightarrow> Alert list" where
  "checkBpfLoad d evt =
     (let comm = CommStr evt; chain = FormatChain (d_tree d) (e_Pid evt) in
      [mk_alert evt ''bpf-prog-load'' SevCritical
        (comm @ '' (phase='' @ Phase_String (e_Phase evt) @ '') called BPF_PROG_LOAD '' @ em_dash @
         '' possible eBPF rootkit or backdoor. Chain: '' @ chain)])"

definition Check :: "(nat \<Rightarrow> bool) \<Rightarrow> Detector \<Rightarrow> ChainEvent \<Rightarrow> Alert list" where
  "Check pr d evt =
     (let t = e_EventType evt in
      if t = EvtExec then checkExec pr d evt
      else if t = EvtNetConnect then checkNet d evt
      else if t = EvtFileOpen then checkFileRead pr d evt
      else if t = EvtFileWrite then checkFileWrite pr d evt
      else if t = EvtMemfdCreate then checkMemfd pr d evt
      else if t = EvtExecveat then checkExecveat d evt
      else if t = EvtChmod then checkChmod pr d evt
      else if t = EvtDnsLookup then checkDns pr d evt
      else if t = EvtBpfLoad then checkBpfLoad d evt
      else [])"

section \<open>The decision table\<close>

text \<open>
  The rules as a table, independent of the order of the tests in the code: rule, condition on the
  event and the policy, severity. Flags are bits, path tests are prefix, suffix and substring.
\<close>

definition sensitive :: "string \<Rightarrow> bool" where
  "sensitive p \<longleftrightarrow>
     (\<exists>d \<in> {''/root/.ssh/'', ''/.ssh/'', ''/.aws/'', ''/.gcp/'', ''/.gnupg/'', ''/etc/shadow'',
            ''/etc/gshadow'', ''.env''}. sublist d p) \<or>
     (\<exists>s \<in> {''id_rsa'', ''id_ecdsa'', ''id_ed25519'', ''.pem'', ''.key'', ''credentials'',
            ''secret'', ''token''}. suffix s p)"

definition system_path :: "string \<Rightarrow> bool" where
  "system_path p \<longleftrightarrow>
     (\<exists>d \<in> {''/usr/bin/'', ''/usr/sbin/'', ''/usr/local/bin/'', ''/usr/local/sbin/'', ''/bin/'',
            ''/sbin/'', ''/etc/''}. prefix d p)"

definition rule_table :: "Policy option \<Rightarrow> ChainEvent \<Rightarrow> (string \<times> bool \<times> Severity) list" where
  "rule_table pol e =
     (let ty = e_EventType e; ph = e_Phase e; env = e_EnvFlags e; ex = e_ExecFlags e;
          path = PathStr e; known = fst (IsAllowedIP pol (DstIP e));
          toolchain = (ph \<in> {PhaseCompile, PhaseLink});
          set_id = (bit (e_NewMode e) 10 \<or> bit (e_NewMode e) 11)
      in
      [(''exec-from-temp'', ty = EvtExec \<and> bit ex 0, SevHigh),
       (''shell-stdin-pipe'', ty = EvtExec \<and> bit ex 2 \<and> bit ex 1, SevCritical),
       (''ld-preload-injection'', ty = EvtExec \<and> bit env 0, SevCritical),
       (''ld-library-path-redirect'', ty = EvtExec \<and> bit env 1, SevHigh),
       (''credential-in-env'', ty = EvtExec \<and> (\<exists>k\<ge>2. bit env k), SevHigh),
       (''compiler-network'', ty = EvtNetConnect \<and> toolchain, SevCritical),
       (''unexpected-phase-network'',
          ty = EvtNetConnect \<and> \<not> toolchain \<and> known \<and> ph \<notin> {PhaseDownload, PhaseInstall}, SevLow),
       (''unknown-network'', ty = EvtNetConnect \<and> \<not> toolchain \<and> \<not> known,
          if ph \<in> {PhasePostinst, PhaseBuild} then SevHigh else SevMedium),
       (''sensitive-file-read'', ty = EvtFileOpen \<and> sensitive path,
          if toolchain then SevCritical else SevHigh),
       (''build-writes-system-path'',
          ty = EvtFileWrite \<and> system_path path \<and> ph \<in> {PhaseCompile, PhaseBuild}, SevHigh),
       (''postinst-writes-system-path'',
          ty = EvtFileWrite \<and> system_path path \<and> ph = PhasePostinst, SevHigh),
       (''unexpected-install-write'',
          ty = EvtFileWrite \<and> system_path path \<and>
          ph \<notin> {PhaseCompile, PhaseBuild, PhasePostinst, PhaseInstall}, SevMedium),
       (''memfd-create'', ty = EvtMemfdCreate, SevHigh),
       (''execveat-anon'', ty = EvtExecveat, SevCritical),
       (''chmod-suid-sgid'', ty = EvtChmod \<and> set_id, SevCritical),
       (''chmod-exec-bit'', ty = EvtChmod \<and> \<not> set_id, e_Severity e),
       (''compiler-dns-lookup'', ty = EvtDnsLookup \<and> toolchain, SevCritical),
       (''bpf-prog-load'', ty = EvtBpfLoad, SevCritical)])"

definition fired :: "(string \<times> bool \<times> Severity) list \<Rightarrow> (string \<times> Severity) list" where
  "fired rows = map (\<lambda>(r, c, s). (r, s)) (filter (\<lambda>(r, c, s). c) rows)"

definition verdicts :: "Alert list \<Rightarrow> (string \<times> Severity) list" where
  "verdicts as = map (\<lambda>a. (a_Rule a, a_Severity a)) as"

lemma fired_simps [simp]:
  "fired [] = []" "fired ((r, c, s) # rows) = (if c then [(r, s)] else []) @ fired rows"
  by (simp_all add: fired_def)

lemma verdicts_simps [simp]:
  "verdicts [] = []" "verdicts (a # as) = (a_Rule a, a_Severity a) # verdicts as"
  "verdicts (as @ bs) = verdicts as @ verdicts bs"
  "verdicts (if c then as else bs) = (if c then verdicts as else verdicts bs)"
  by (simp_all add: verdicts_def)

lemma isSensitivePath_iff: "isSensitivePath p \<longleftrightarrow> sensitive p"
  by (auto simp: isSensitivePath_def sensitive_def sensitivePathPrefixes_def
      sensitivePathSuffixes_def sensitivePathContains_def Contains_iff HasSuffix_iff)

lemma isInstallPath_iff: "isInstallPath p \<longleftrightarrow> system_path p"
  by (simp add: isInstallPath_def system_path_def installPathPrefixes_def HasPrefix_iff)

lemma flag_bit: "(w :: u32) AND push_bit n 1 = 0 \<longleftrightarrow> \<not> bit w n"
  by (simp add: bit_iff_and_push_bit_not_eq_0)

lemma flag_tests:
  "w AND ExecFlagTempPath = 0 \<longleftrightarrow> \<not> bit w 0" "w AND ExecFlagStdinPipe = 0 \<longleftrightarrow> \<not> bit w 1"
  "w AND ExecFlagIsShell = 0 \<longleftrightarrow> \<not> bit w 2" "w AND EnvFlagLdPreload = 0 \<longleftrightarrow> \<not> bit w 0"
  "w AND EnvFlagLdLibrary = 0 \<longleftrightarrow> \<not> bit w 1"
  by (simp_all only: exec_flag_defs env_flag_defs flag_bit)

lemma cred_test: "w AND NOT (EnvFlagLdPreload OR EnvFlagLdLibrary) = 0 \<longleftrightarrow> (\<forall>k\<ge>2. \<not> bit w k)"
  (is "?x = 0 \<longleftrightarrow> _")
proof -
  have len: "bit w k \<Longrightarrow> k < 32" for k using bit_imp_le_length [of w k] by simp
  have two: "k \<noteq> 0 \<and> k \<noteq> 1 \<longleftrightarrow> 2 \<le> k" for k :: nat by linarith
  have "?x = 0 \<longleftrightarrow> (\<forall>k. \<not> bit ?x k)" using bit_eqI [of ?x 0] by auto
  also have "\<dots> \<longleftrightarrow> (\<forall>k. \<not> (bit w k \<and> k \<noteq> 0 \<and> k \<noteq> 1))"
    unfolding env_flag_defs
    by (simp only: bit_and_iff bit_or_iff bit_not_iff bit_push_bit_iff bit_1_iff)
      (use len in fastforce)
  also have "\<dots> \<longleftrightarrow> (\<forall>k\<ge>2. \<not> bit w k)" by (simp only: two) blast
  finally show ?thesis .
qed

lemma set_id_test: "(w :: u32) AND 3072 = 0 \<longleftrightarrow> \<not> (bit w 10 \<or> bit w 11)"
proof -
  have m: "(3072 :: u32) = push_bit 10 1 OR push_bit 11 1" by code_simp
  show ?thesis
    unfolding m by (simp only: bit.conj_disj_distrib or_eq_0_iff flag_bit de_Morgan_disj)
qed

lemmas rule_bits = flag_tests cred_test cred_test [simplified] set_id_test

text \<open>Each group of rules against the table.\<close>

lemma verdicts_checkExec:
  "e_EventType e = EvtExec \<Longrightarrow> verdicts (checkExec pr d e) = fired (rule_table (d_policy d) e)"
  by (simp add: checkExec_def Let_def rule_table_def rule_bits cong: if_cong split del: if_split)

lemma verdicts_checkNet:
  "e_EventType e = EvtNetConnect \<Longrightarrow> verdicts (checkNet d e) = fired (rule_table (d_policy d) e)"
  by (cases "d_policy d")
    (auto simp: checkNet_def Let_def rule_table_def IsAllowedIP_def split: prod.split)

lemma verdicts_checkFileRead:
  "e_EventType e = EvtFileOpen \<Longrightarrow> verdicts (checkFileRead pr d e) = fired (rule_table (d_policy d) e)"
  by (simp add: checkFileRead_def Let_def rule_table_def isSensitivePath_iff)

lemma verdicts_checkFileWrite:
  "e_EventType e = EvtFileWrite \<Longrightarrow> verdicts (checkFileWrite pr d e) = fired (rule_table (d_policy d) e)"
  by (simp add: checkFileWrite_def Let_def rule_table_def isInstallPath_iff)

lemma verdicts_checkMemfd:
  "e_EventType e = EvtMemfdCreate \<Longrightarrow> verdicts (checkMemfd pr d e) = fired (rule_table (d_policy d) e)"
  by (simp add: checkMemfd_def Let_def rule_table_def)

lemma verdicts_checkExecveat:
  "e_EventType e = EvtExecveat \<Longrightarrow> verdicts (checkExecveat d e) = fired (rule_table (d_policy d) e)"
  by (simp add: checkExecveat_def Let_def rule_table_def)

lemma verdicts_checkChmod:
  "e_EventType e = EvtChmod \<Longrightarrow> verdicts (checkChmod pr d e) = fired (rule_table (d_policy d) e)"
  by (simp add: checkChmod_def Let_def rule_table_def rule_bits)

lemma verdicts_checkDns:
  "e_EventType e = EvtDnsLookup \<Longrightarrow> verdicts (checkDns pr d e) = fired (rule_table (d_policy d) e)"
  by (simp add: checkDns_def Let_def rule_table_def)

lemma verdicts_checkBpfLoad:
  "e_EventType e = EvtBpfLoad \<Longrightarrow> verdicts (checkBpfLoad d e) = fired (rule_table (d_policy d) e)"
  by (simp add: checkBpfLoad_def Let_def rule_table_def)

lemmas verdicts_check = verdicts_checkExec verdicts_checkNet verdicts_checkFileRead
  verdicts_checkFileWrite verdicts_checkMemfd verdicts_checkExecveat verdicts_checkChmod
  verdicts_checkDns verdicts_checkBpfLoad

lemma verdicts_Check: "verdicts (Check pr d e) = fired (rule_table (d_policy d) e)"
proof (cases "e_EventType e \<in> {1, 2, 3, 4, 5, 6, 7, 8, 9}")
  case True
  then show ?thesis by (auto simp: Check_def Let_def verdicts_check)
next
  case False
  then have "Check pr d e = []" by (simp add: Check_def)
  moreover have "fired (rule_table (d_policy d) e) = []" using False by (simp add: rule_table_def Let_def)
  ultimately show ?thesis by simp
qed

lemmas check_defs = checkExec_def checkNet_def checkFileRead_def checkFileWrite_def checkMemfd_def
  checkExecveat_def checkChmod_def checkDns_def checkBpfLoad_def

section \<open>Properties of the rules\<close>

text \<open>
  C1. The rule engine implements the decision table: for every event, policy and process tree the
  alerts carry exactly the rules of the rows whose condition holds, in the order of the table
  and with the severity of the row.
\<close>

theorem Check_table: "verdicts (Check pr d evt) = fired (rule_table (d_policy d) evt)"
  by (rule verdicts_Check)

lemma Check_split:
  assumes "\<And>pr. P (checkExec pr d e)" "P (checkNet d e)" "P (checkFileRead pr d e)"
    "P (checkFileWrite pr d e)" "P (checkMemfd pr d e)" "P (checkExecveat d e)"
    "P (checkChmod pr d e)" "P (checkDns pr d e)" "P (checkBpfLoad d e)" "P []"
  shows "P (Check pr d e)"
  using assms by (simp add: Check_def Let_def)

definition well_formed_alert :: "Detector \<Rightarrow> ChainEvent \<Rightarrow> Alert \<Rightarrow> bool" where
  "well_formed_alert d evt a \<longleftrightarrow> a_Event a = evt \<and> a_ContainerID a = [] \<and>
     CHR 0x00 \<notin> set (a_Rule a) \<and> prefix (CommStr evt) (a_Description a) \<and>
     suffix (''. Chain: '' @ FormatChain (d_tree d) (e_Pid evt)) (a_Description a)"

lemma suffix_append_cong: "suffix x t \<Longrightarrow> suffix x (s @ t)"
  by (auto simp: suffix_def)

lemma suffix_Cons_cong: "suffix x t \<Longrightarrow> suffix x (c # t)"
  by (auto simp: suffix_def)

lemma list_all_if: "list_all P (if c then xs else ys) \<longleftrightarrow> (c \<longrightarrow> list_all P xs) \<and> (\<not> c \<longrightarrow> list_all P ys)"
  by simp

lemma Check_well_formed: "list_all (well_formed_alert d e) (Check pr d e)"
  by (rule Check_split)
    (auto simp: check_defs Let_def list_all_if well_formed_alert_def
      intro!: suffix_append_cong suffix_Cons_cong split: prod.split option.split)

lemma rules_distinct: "distinct (map fst (rule_table pol e))"
  by (simp add: rule_table_def Let_def)

lemma Check_distinct: "distinct (map a_Rule (Check pr d e))"
proof -
  have "map a_Rule (Check pr d e) = map fst (verdicts (Check pr d e))" by (simp add: verdicts_def)
  also have "\<dots> = map fst (filter (\<lambda>(r, c, s). c) (rule_table (d_policy d) e))"
    by (simp add: verdicts_Check fired_def case_prod_unfold)
  finally show ?thesis using rules_distinct [of "d_policy d" e] by (simp add: distinct_map_filter)
qed

lemma length_fired: "length (fired ((r, c, s) # rows)) = of_bool c + length (fired rows)"
  by simp

lemma fired_length: "length (fired (rule_table pol e)) \<le> 5"
proof -
  have b: "of_bool c \<le> (1 :: nat)" for c by simp
  consider "e_EventType e = 1" | "e_EventType e = 2" | "e_EventType e = 4" | "e_EventType e \<notin> {1, 2, 4}" by blast
  then show ?thesis
    unfolding rule_table_def Let_def length_fired
    by cases (simp_all add: b add_mono [OF b, of _ 4, simplified])
qed

lemma Check_length: "length (Check pr d e) \<le> 5"
  using fired_length [of "d_policy d" e] by (simp add: verdicts_def flip: verdicts_Check [of pr])

text \<open>
  Every alert is about the event that was checked, carries no container yet, begins with the name
  of the process and ends with its chain; rule names hold no NUL (they are used in composite
  keys), no rule fires twice on one event, and at most five rules fire.
\<close>

theorem Check_alerts:
  "list_all (well_formed_alert d evt) (Check pr d evt) \<and>
   distinct (map a_Rule (Check pr d evt)) \<and> length (Check pr d evt) \<le> 5"
proof (intro conjI)
  show "list_all (well_formed_alert d evt) (Check pr d evt)" by (rule Check_well_formed)
  show "distinct (map a_Rule (Check pr d evt))" by (rule Check_distinct)
  show "length (Check pr d evt) \<le> 5" by (rule Check_length)
qed

text \<open>
  C29. What a policy can do: it only matters for network connections outside the compile and link
  phases, and there each alert it leaves has a counterpart without the policy that is at least
  as severe. So no allow-list hides or lowers a connection made by a compiler or linker, and
  none adds or raises an alert.
\<close>

theorem policy_only_lowers:
  "if e_EventType evt = EvtNetConnect \<and> e_Phase evt \<notin> {PhaseCompile, PhaseLink}
   then list_all (\<lambda>a. \<exists>b \<in> set (Check pr (d\<lparr>d_policy := None\<rparr>) evt). a_Severity a \<le> a_Severity b)
          (Check pr d evt)
   else Check pr d evt = Check pr (d\<lparr>d_policy := None\<rparr>) evt"
proof (cases "e_EventType evt = EvtNetConnect")
  case True
  then show ?thesis
    by (cases "d_policy d")
      (auto simp: Check_def checkNet_def Let_def split: prod.split)
next
  case False
  then show ?thesis by (simp add: Check_def Let_def check_defs)
qed

text \<open>The kernel reports an IPv4 destination of an IPv6 socket in its mapped form.\<close>

definition mapped_event :: "ChainEvent \<Rightarrow> ChainEvent" where
  "mapped_event e = e\<lparr>e_IsIPv6 := 1, e_Daddr := v4InV6Prefix @ take 4 (e_Daddr e)\<rparr>"

lemma IP_String_mapped: "length ip = 4 \<Longrightarrow> IP_String (v4InV6Prefix @ ip) = IP_String ip"
  by (auto simp: IP_String_def To4_def v4InV6Prefix_def)

lemma mapped_event_sel:
  "CommStr (mapped_event e) = CommStr e" "PathStr (mapped_event e) = PathStr e"
  "ArgvStr (mapped_event e) = ArgvStr e" "EnvFlagNames (mapped_event e) = EnvFlagNames e"
  "MemfdNameStr (mapped_event e) = MemfdNameStr e"
  "e_Pid (mapped_event e) = e_Pid e" "e_Phase (mapped_event e) = e_Phase e"
  "e_Dport (mapped_event e) = e_Dport e" "e_EventType (mapped_event e) = e_EventType e"
  "e_ExecFlags (mapped_event e) = e_ExecFlags e" "e_EnvFlags (mapped_event e) = e_EnvFlags e"
  "e_NewMode (mapped_event e) = e_NewMode e" "e_Severity (mapped_event e) = e_Severity e"
  "e_MemfdFlags (mapped_event e) = e_MemfdFlags e"
  by (simp_all add: mapped_event_def CommStr_def PathStr_def ArgvStr_def EnvFlagNames_def
      MemfdNameStr_def)

lemma DstIP_mapped:
  "e_IsIPv6 e = 0 \<Longrightarrow> 4 \<le> length (e_Daddr e) \<Longrightarrow>
   DstIP (mapped_event e) = v4InV6Prefix @ DstIP e \<and> length (DstIP e) = 4"
  by (simp add: DstIP_def mapped_event_def v4InV6Prefix_def)

lemma mk_alert_event [simp]: "(mk_alert e r s t)\<lparr>a_Event := e'\<rparr> = mk_alert e' r s t"
  by (simp add: mk_alert_def)

text \<open>
  C36. A connection to an IPv4 address gives the same alerts, with the same text, whether it was made
  through an IPv4 socket or through an IPv6 socket with the mapped address.
\<close>

theorem mapped_same_alerts:
  assumes "e_IsIPv6 e = 0" "4 \<le> length (e_Daddr e)"
  shows "map (\<lambda>a. a\<lparr>a_Event := e\<rparr>) (Check pr d (mapped_event e)) = Check pr d e"
proof -
  have ip: "DstIP (mapped_event e) = v4InV6Prefix @ DstIP e" "length (DstIP e) = 4"
    using DstIP_mapped [OF assms] by auto
  have net: "map (\<lambda>a. a\<lparr>a_Event := e\<rparr>) (checkNet d (mapped_event e)) = checkNet d e"
    by (auto simp: checkNet_def Let_def mapped_event_sel ip IP_String_mapped
        policy.allowed_mapped split: option.split prod.split)
  let ?f = "map (\<lambda>a. a\<lparr>a_Event := e\<rparr>)"
  have ev: "?f (checkExec pr d (mapped_event e)) = checkExec pr d e"
    by (simp add: checkExec_def Let_def mapped_event_sel if_distrib [of ?f] cong: if_cong
        split del: if_split)
  have rest: "?f (checkFileRead pr d (mapped_event e)) = checkFileRead pr d e"
    "?f (checkFileWrite pr d (mapped_event e)) = checkFileWrite pr d e"
    "?f (checkMemfd pr d (mapped_event e)) = checkMemfd pr d e"
    "?f (checkExecveat d (mapped_event e)) = checkExecveat d e"
    "?f (checkChmod pr d (mapped_event e)) = checkChmod pr d e"
    "?f (checkDns pr d (mapped_event e)) = checkDns pr d e"
    "?f (checkBpfLoad d (mapped_event e)) = checkBpfLoad d e"
    by (simp_all add: check_defs Let_def mapped_event_sel)
  show ?thesis
    by (simp only: Check_def Let_def mapped_event_sel net ev rest if_distrib [of ?f] list.map)
qed

theorem mapped_same_alerts_witness:
  "map a_Rule (Check (\<lambda>_. False) \<lparr>d_tree = New, d_policy = None\<rparr>
     (mapped_event (zero_event\<lparr>e_EventType := EvtNetConnect, e_Phase := PhaseLink\<rparr>))) =
   [''compiler-network'']"
proof -
  let ?e = "zero_event\<lparr>e_EventType := EvtNetConnect, e_Phase := PhaseLink\<rparr>"
  let ?d = "\<lparr>d_tree = New, d_policy = None\<rparr>"
  have "map (\<lambda>a. a\<lparr>a_Event := ?e\<rparr>) (Check (\<lambda>_. False) ?d (mapped_event ?e)) =
    Check (\<lambda>_. False) ?d ?e"
    by (rule mapped_same_alerts) (simp_all add: zero_event_def)
  then have "map a_Rule (map (\<lambda>a. a\<lparr>a_Event := ?e\<rparr>) (Check (\<lambda>_. False) ?d (mapped_event ?e))) =
    map a_Rule (Check (\<lambda>_. False) ?d ?e)" by (rule arg_cong)
  then show ?thesis by (simp add: comp_def Check_def checkNet_def Let_def)
qed

lemma printable_Cons:
  "printable_bytes (c # s) \<longleftrightarrow> 0x20 \<le> ord c \<and> ord c \<noteq> 0x7F \<and> printable_bytes s"
  by (auto simp: printable_bytes_def)

lemma printable_numbers:
  "printable_bytes (hex_str n)" "printable_bytes (dec_str n)" "printable_bytes (oct_str n)"
  by (simp_all add: hex_str_def dec_str_def oct_str_def printable_itoa)

lemma printable_fmt_04o: "printable_bytes (fmt_04o n)"
proof -
  have "printable_bytes (replicate k (CHR ''0''))" for k
    by (auto simp: printable_bytes_def ord_def)
  then show ?thesis by (simp add: fmt_04o_def pad_zeros_def printable_numbers)
qed

lemma printable_Join:
  "printable_bytes sep \<Longrightarrow> list_all printable_bytes ps \<Longrightarrow> printable_bytes (Join sep ps)"
  by (induction sep ps rule: Join.induct) auto

lemmas printable_eval = printable_Cons ord_def

lemma printable_Phase: "printable_bytes (Phase_String p)"
  by (simp add: Phase_String_def printable_eval)

lemma printable_em_dash: "printable_bytes em_dash"
  by (simp add: em_dash_def printable_eval)

lemma printable_EnvFlagNames: "list_all printable_bytes (EnvFlagNames e)"
  by (simp add: EnvFlagNames_def list_all_if printable_eval)

text \<open>
  Paths cannot forge output. If the name and arguments of the process and its chain hold no control
  bytes, then no alert other than a network one holds any, whatever bytes the process chose for
  the path, the file name, the host name or the memory file: \<open>%q\<close> escapes them.
\<close>

theorem quoted_paths:
  assumes "printable_bytes (CommStr evt)" "printable_bytes (ArgvStr evt)"
    and "printable_bytes (FormatChain (d_tree d) (e_Pid evt))"
    and "e_EventType evt \<noteq> EvtNetConnect"
  shows "list_all (\<lambda>a. printable_bytes (a_Description a)) (Check pr d evt)"
proof -
  note p = printable_numbers printable_fmt_04o printable_Phase printable_em_dash printable_Quote
  have j: "printable_bytes (Join '', '' (EnvFlagNames evt))"
    by (rule printable_Join) (simp_all add: printable_EnvFlagNames printable_eval)
  have exec: "list_all (\<lambda>a. printable_bytes (a_Description a)) (checkExec pr d evt)"
    using assms j by (simp add: checkExec_def Let_def list_all_if p printable_eval)
  have rest: "list_all (\<lambda>a. printable_bytes (a_Description a)) as"
    if "as \<in> {checkFileRead pr d evt, checkFileWrite pr d evt, checkMemfd pr d evt,
      checkExecveat d evt, checkChmod pr d evt, checkDns pr d evt, checkBpfLoad d evt}" for as
    using that assms(1,3)
    by (auto simp: check_defs Let_def p printable_eval)
  show ?thesis
    using exec rest assms(4) by (simp add: Check_def Let_def)
qed

theorem quoted_paths_witness:
  "list_all (\<lambda>a. printable_bytes (a_Description a))
     (Check (\<lambda>_. False) \<lparr>d_tree = New, d_policy = None\<rparr>
        (zero_event\<lparr>e_EventType := EvtFileOpen, e_Comm := c_array 16 ''cat'',
           e_Path := c_array 256 (''/tmp/'' @ [CHR 0x0A, CHR 0x1B] @ ''[2J/token'')\<rparr>))"
proof (rule quoted_paths)
  let ?e = "zero_event\<lparr>e_EventType := EvtFileOpen, e_Comm := c_array 16 ''cat'',
           e_Path := c_array 256 (''/tmp/'' @ [CHR 0x0A, CHR 0x1B] @ ''[2J/token'')\<rparr>"
  have "CommStr ?e = ''cat''" by code_simp
  then show "printable_bytes (CommStr ?e)" by (simp add: printable_eval)
  have "ArgvStr ?e = []" by code_simp
  then show "printable_bytes (ArgvStr ?e)" by simp
  show "printable_bytes (FormatChain (d_tree \<lparr>d_tree = New, d_policy = None\<rparr>) (e_Pid ?e))"
    by (simp add: FormatChain_def Chain_untracked)
qed (simp add: zero_event_def)

end
