(* ===== verification/Dedup.thy ===== *)
theory Dedup
  imports Types
begin

text \<open>
  The alert deduplicator, \<open>internal/detector/dedup.go\<close>. The reading of the clock at the call is
  an argument: nanoseconds as an \<^typ>\<open>int\<close>. \<open>time.Time.Sub\<close> saturates at the bounds of an
  \<open>int64\<close>. The lock makes \<open>Filter\<close> one atomic step.
\<close>

definition max_duration :: int where
  "max_duration = 2 ^ 63 - 1"

definition min_duration :: int where
  "min_duration = - (2 ^ 63)"

definition time_Sub :: "int \<Rightarrow> int \<Rightarrow> int" where
  "time_Sub t u = max min_duration (min max_duration (t - u))"

record Deduplicator =
  dd_seen :: "(string, int) fmap"
  dd_ttl :: int

definition NewDeduplicator :: "int \<Rightarrow> Deduplicator" where
  "NewDeduplicator ttl = \<lparr>dd_seen = fmempty, dd_ttl = ttl\<rparr>"

definition dedup_key :: "Alert \<Rightarrow> string" where
  "dedup_key a = a_Rule a @ [CHR 0x00] @ dec_str (unat (e_RootPid (a_Event a)))"

text \<open>The eviction loop: delete every entry that is \<open>ttl\<close> old.\<close>

definition evict :: "int \<Rightarrow> int \<Rightarrow> (string, int) fmap \<Rightarrow> (string, int) fmap" where
  "evict now ttl seen =
     fmfilter (\<lambda>k. case fmlookup seen k of None \<Rightarrow> True | Some t \<Rightarrow> \<not> time_Sub now t \<ge> ttl) seen"

fun filter_loop ::
  "int \<Rightarrow> int \<Rightarrow> (string, int) fmap \<Rightarrow> Alert list \<Rightarrow> (string, int) fmap \<times> Alert list" where
  "filter_loop now ttl seen [] = (seen, [])"
| "filter_loop now ttl seen (a # as) =
     (let key = dedup_key a in
      case fmlookup seen key of
        Some t \<Rightarrow>
          (if time_Sub now t < ttl then filter_loop now ttl seen as
           else (let (seen', out) = filter_loop now ttl (fmupd key now seen) as
                 in (seen', a # out)))
      | None \<Rightarrow>
          (let (seen', out) = filter_loop now ttl (fmupd key now seen) as
           in (seen', a # out)))"

definition Filter :: "int \<Rightarrow> Alert list \<Rightarrow> Deduplicator \<Rightarrow> Deduplicator \<times> Alert list" where
  "Filter now alerts d =
     (if alerts = [] then (d, [])
      else let (seen, out) = filter_loop now (dd_ttl d) (evict now (dd_ttl d) (dd_seen d)) alerts
           in (d\<lparr>dd_seen := seen\<rparr>, out))"

section \<open>The contract of a rate limiter\<close>

text \<open>
  A limiter is called with the time and a batch. \<open>last\<close> is what it remembers: the time a key was
  last let through. It may forget an entry once the entry is \<open>ttl\<close> old; nothing a client can see
  depends on when it does.
\<close>

locale rate_limiter =
  fixes limit :: "int \<Rightarrow> 'a list \<Rightarrow> 's \<Rightarrow> 's \<times> 'a list"
    and last :: "'s \<Rightarrow> 'k \<Rightarrow> int option" and key :: "'a \<Rightarrow> 'k"
    and ok :: "'s \<Rightarrow> bool" and ttl :: int
  assumes ok_step: "ok s \<Longrightarrow> limit now as s = (s', out) \<Longrightarrow> ok s'"
    and pass_iff: "ok s \<Longrightarrow> limit now as s = (s', out) \<Longrightarrow>
      key ` set out = {k \<in> key ` set as. \<forall>t. last s k = Some t \<longrightarrow> ttl \<le> now - t}"
    and pass_once: "ok s \<Longrightarrow> limit now as s = (s', out) \<Longrightarrow> distinct (map key out)"
    and pass_subseq: "ok s \<Longrightarrow> limit now as s = (s', out) \<Longrightarrow> subseq out as"
    and last_passed: "ok s \<Longrightarrow> limit now as s = (s', out) \<Longrightarrow> k \<in> key ` set out \<Longrightarrow>
      last s' k = Some now"
    and last_fresh: "ok s \<Longrightarrow> limit now as s = (s', out) \<Longrightarrow> last s k = Some t \<Longrightarrow>
      now - t < ttl \<Longrightarrow> last s' k = Some t"
    and last_origin: "ok s \<Longrightarrow> limit now as s = (s', out) \<Longrightarrow> last s' k = Some t \<Longrightarrow>
      last s k = Some t \<or> (t = now \<and> k \<in> key ` set out)"

text \<open>A run of calls, and the items let through, each with the time of its call.\<close>

fun limit_run ::
  "(int \<Rightarrow> 'a list \<Rightarrow> 's \<Rightarrow> 's \<times> 'a list) \<Rightarrow> 's \<Rightarrow> (int \<times> 'a list) list \<Rightarrow> (int \<times> 'a) list" where
  "limit_run limit s [] = []"
| "limit_run limit s ((now, as) # calls) =
     (let (s', out) = limit now as s in map (Pair now) out @ limit_run limit s' calls)"

lemma limit_run_times: "(t, b) \<in> set (limit_run limit s cs) \<Longrightarrow> t \<in> set (map fst cs)"
proof (induction cs arbitrary: s)
  case (Cons c cs)
  obtain now as where c: "c = (now, as)" by force
  obtain s' out where "limit now as s = (s', out)" by force
  with Cons c show ?case by auto
qed simp

definition spaced :: "('a \<Rightarrow> 'k) \<Rightarrow> int \<Rightarrow> (int \<times> 'a) list \<Rightarrow> bool" where
  "spaced key ttl em \<longleftrightarrow>
     sorted_wrt (\<lambda>(t, a) (t', b). key a = key b \<longrightarrow> ttl \<le> t' - t) em"

context rate_limiter
begin

lemma run_after_last:
  "ok s \<Longrightarrow> sorted (now # map fst calls) \<Longrightarrow> (t, b) \<in> set (limit_run limit s calls) \<Longrightarrow>
   last s (key b) = Some t0 \<Longrightarrow> ttl \<le> t - t0"
proof (induction calls arbitrary: s now)
  case Nil
  then show ?case by simp
next
  case (Cons c calls)
  obtain now1 as where c: "c = (now1, as)" by force
  obtain s' out where l: "limit now1 as s = (s', out)" by force
  have ok': "ok s'" using ok_step Cons.prems(1) l by blast
  consider "t = now1" "b \<in> set out" | "(t, b) \<in> set (limit_run limit s' calls)"
    using Cons.prems(3) by (auto simp: c l)
  then show ?case
  proof cases
    case 1
    then have "key b \<in> key ` set out" by simp
    with pass_iff [OF Cons.prems(1) l] Cons.prems(4) 1 show ?thesis by auto
  next
    case 2
    have srt: "sorted (now1 # map fst calls)" using Cons.prems(2) by (simp add: c)
    have ge: "now1 \<le> t"
      using limit_run_times [OF 2] srt by auto
    show ?thesis
    proof (cases "now1 - t0 < ttl")
      case True
      with last_fresh [OF Cons.prems(1) l Cons.prems(4)] Cons.IH [OF ok' srt 2] show ?thesis
        by blast
    next
      case False
      with ge show ?thesis by simp
    qed
  qed
qed

lemma run_spaced:
  "ok s \<Longrightarrow> sorted (map fst calls) \<Longrightarrow> spaced key ttl (limit_run limit s calls)"
proof (induction calls arbitrary: s)
  case Nil
  then show ?case by (simp add: spaced_def)
next
  case (Cons c calls)
  obtain now as where c: "c = (now, as)" by force
  obtain s' out where l: "limit now as s = (s', out)" by force
  have ok': "ok s'" using ok_step Cons.prems(1) l by blast
  have dist: "distinct (map key out)" using pass_once Cons.prems(1) l by blast
  have "sorted_wrt (\<lambda>(t, a) (t', b). key a = key b \<longrightarrow> ttl \<le> t' - t) (map (Pair now) out)"
    using dist by (induction out) (auto simp: image_iff)
  moreover have "ttl \<le> t - now" if "a \<in> set out" "(t, b) \<in> set (limit_run limit s' calls)"
    "key a = key b" for a t b
  proof -
    have "last s' (key b) = Some now"
      using that(1) that(3) [symmetric] by (intro last_passed [OF Cons.prems(1) l]) simp
    with run_after_last [OF ok' _ that(2)] Cons.prems(2) show ?thesis by (auto simp: c)
  qed
  ultimately show ?case
    using Cons.IH [OF ok'] Cons.prems(2) by (auto simp: c l spaced_def sorted_wrt_append)
qed

text \<open>Every item submitted is covered by an item of its key let through less than \<open>ttl\<close> before.\<close>

lemma run_covered:
  assumes "0 < ttl"
  shows "ok s \<Longrightarrow> sorted (map fst calls) \<Longrightarrow> \<forall>k t. last s k = Some t \<longrightarrow> (\<exists>b. key b = k \<and> (t, b) \<in> set em) \<Longrightarrow>
   \<forall>e \<in> set em. \<forall>c \<in> set calls. fst e \<le> fst c \<Longrightarrow> (now, as) \<in> set calls \<Longrightarrow> a \<in> set as \<Longrightarrow>
   \<exists>t b. (t, b) \<in> set em \<union> set (limit_run limit s calls) \<and> key b = key a \<and> t \<le> now \<and> now - t < ttl"
proof (induction calls arbitrary: s em)
  case Nil
  then show ?case by simp
next
  case (Cons c calls)
  obtain now1 as1 where c: "c = (now1, as1)" by force
  obtain s' out where l: "limit now1 as1 s = (s', out)" by force
  have ok': "ok s'" using ok_step Cons.prems(1) l by blast
  let ?em = "em @ map (Pair now1) out"
  have rem: "\<forall>k t. last s' k = Some t \<longrightarrow> (\<exists>b. key b = k \<and> (t, b) \<in> set ?em)"
    using last_origin [OF Cons.prems(1) l] Cons.prems(3) by fastforce
  have early: "\<forall>e \<in> set ?em. \<forall>c \<in> set calls. fst e \<le> fst c"
    using Cons.prems(2,4) by (auto simp: c)
  show ?case
  proof (cases "(now, as) = c")
    case True
    show ?thesis
    proof (cases "\<exists>t. last s (key a) = Some t \<and> now1 - t < ttl")
      case fresh: True
      then obtain t b where b: "key b = key a" "(t, b) \<in> set em" "now1 - t < ttl" using Cons.prems(3) by blast
      moreover have "t \<le> now" using b(2) Cons.prems(4) True by fastforce
      ultimately show ?thesis using True c by blast
    next
      case False
      then have "key a \<in> key ` set out"
        using pass_iff [OF Cons.prems(1) l] Cons.prems(6) True c by auto
      then obtain b where "b \<in> set out" "key b = key a" by auto
      then show ?thesis using assms True c l by force
    qed
  next
    case False
    then have "(now, as) \<in> set calls" using Cons.prems(5) by auto
    from Cons.IH [OF ok' _ rem early this Cons.prems(6)] Cons.prems(2)
    show ?thesis by (fastforce simp: c l)
  qed
qed

end

section \<open>\<open>Filter\<close> is a rate limiter\<close>

lemma fmlookup_evict:
  "fmlookup (evict now ttl seen) k =
     (case fmlookup seen k of
        None \<Rightarrow> None
      | Some t \<Rightarrow> (if ttl \<le> time_Sub now t then None else Some t))"
  by (simp add: evict_def split: option.split)

lemma time_Sub_less:
  "0 < ttl \<Longrightarrow> ttl \<le> max_duration \<Longrightarrow> time_Sub now t < ttl \<longleftrightarrow> now - t < ttl"
  by (auto simp: time_Sub_def max_duration_def min_duration_def)

lemma time_Sub_ge:
  "0 < ttl \<Longrightarrow> ttl \<le> max_duration \<Longrightarrow> ttl \<le> time_Sub now t \<longleftrightarrow> ttl \<le> now - t"
  using time_Sub_less [of ttl now t] by (simp add: not_less [symmetric])

text \<open>The loop over one batch, from any map: what passes, and what the map holds afterwards.\<close>

lemma filter_loop_spec:
  assumes ttl: "0 < ttl" "ttl \<le> max_duration"
    and "filter_loop now ttl seen as = (seen', out)"
  shows "dedup_key ` set out =
      {k \<in> dedup_key ` set as. \<forall>t. fmlookup seen k = Some t \<longrightarrow> ttl \<le> now - t} \<and>
    distinct (map dedup_key out) \<and> subseq out as \<and>
    (\<forall>k. fmlookup seen' k = (if k \<in> dedup_key ` set out then Some now else fmlookup seen k))"
  using assms(3)
proof (induction as arbitrary: seen seen' out)
  case Nil
  then show ?case by auto
next
  case (Cons a as)
  let ?k = "dedup_key a"
  note sub = time_Sub_less [OF ttl, of now]
  show ?case
  proof (cases "\<exists>t. fmlookup seen ?k = Some t \<and> now - t < ttl")
    case True
    then have "filter_loop now ttl seen as = (seen', out)"
      using Cons.prems by (auto simp: sub)
    from Cons.IH [OF this] True show ?thesis by (auto intro: list_emb_Cons)
  next
    case False
    then obtain rest where rest: "filter_loop now ttl (fmupd ?k now seen) as = (seen', rest)"
      "out = a # rest"
      using Cons.prems by (auto simp: sub Let_def split: option.splits prod.splits if_splits)
    from Cons.IH [OF rest(1)] have IH: "dedup_key ` set rest =
        {k \<in> dedup_key ` set as. \<forall>t. fmlookup (fmupd ?k now seen) k = Some t \<longrightarrow> ttl \<le> now - t}"
      "distinct (map dedup_key rest)" "subseq rest as"
      "\<forall>k. fmlookup seen' k = (if k \<in> dedup_key ` set rest then Some now
        else fmlookup (fmupd ?k now seen) k)" by blast+
    have notin: "?k \<notin> dedup_key ` set rest" using IH(1) ttl by auto
    have "dedup_key ` set out =
        {k \<in> dedup_key ` set (a # as). \<forall>t. fmlookup seen k = Some t \<longrightarrow> ttl \<le> now - t}"
      using IH(1) False ttl(1) by (auto simp: rest(2))
    moreover have "distinct (map dedup_key out)" using notin IH(2) by (simp add: rest(2))
    moreover have "\<forall>k. fmlookup seen' k =
        (if k \<in> dedup_key ` set out then Some now else fmlookup seen k)"
      using IH(4) by (auto simp: rest(2))
    ultimately show ?thesis using IH(3) by (simp add: rest(2))
  qed
qed

definition dedup_ok :: "int \<Rightarrow> Deduplicator \<Rightarrow> bool" where
  "dedup_ok ttl d \<longleftrightarrow> dd_ttl d = ttl \<and> 0 < ttl \<and> ttl \<le> max_duration"

definition last_seen :: "Deduplicator \<Rightarrow> string \<Rightarrow> int option" where
  "last_seen d k = fmlookup (dd_seen d) k"

lemma Filter_spec:
  assumes "dedup_ok ttl d" "Filter now as d = (d', out)"
  shows "dedup_ok ttl d'" and "distinct (map dedup_key out)" and "subseq out as"
    and "dedup_key ` set out =
      {k \<in> dedup_key ` set as. \<forall>t. last_seen d k = Some t \<longrightarrow> ttl \<le> now - t}"
    and "last_seen d' k =
      (if k \<in> dedup_key ` set out then Some now
       else case last_seen d k of None \<Rightarrow> None
         | Some t \<Rightarrow> (if ttl \<le> now - t \<and> as \<noteq> [] then None else Some t))"
proof -
  have t: "dd_ttl d = ttl" "0 < ttl" "ttl \<le> max_duration" using assms(1) by (auto simp: dedup_ok_def)
  have *: "dedup_ok ttl d' \<and> distinct (map dedup_key out) \<and> subseq out as \<and>
    dedup_key ` set out = {k \<in> dedup_key ` set as. \<forall>t. last_seen d k = Some t \<longrightarrow> ttl \<le> now - t} \<and>
    (\<forall>k. last_seen d' k =
      (if k \<in> dedup_key ` set out then Some now
       else case last_seen d k of None \<Rightarrow> None
         | Some t \<Rightarrow> (if ttl \<le> now - t \<and> as \<noteq> [] then None else Some t)))"
  proof (cases "as = []")
    case True
    with assms show ?thesis by (auto simp: Filter_def split: option.split)
  next
    case False
    then obtain seen where f: "filter_loop now ttl (evict now ttl (dd_seen d)) as = (seen, out)"
      "d' = d\<lparr>dd_seen := seen\<rparr>"
      using assms(2) t(1) by (auto simp: Filter_def split: prod.splits)
    have "(\<forall>t. fmlookup (evict now ttl (dd_seen d)) k = Some t \<longrightarrow> ttl \<le> now - t) \<longleftrightarrow>
        (\<forall>t. fmlookup (dd_seen d) k = Some t \<longrightarrow> ttl \<le> now - t)" for k
      by (auto simp: fmlookup_evict time_Sub_ge [OF t(2,3)] split: option.splits)
    with filter_loop_spec [OF t(2,3) f(1)] assms(1) False show ?thesis
      by (auto simp: f(2) dedup_ok_def last_seen_def fmlookup_evict time_Sub_ge [OF t(2,3)]
          split: option.splits)
  qed
  then show "dedup_ok ttl d'" "distinct (map dedup_key out)" "subseq out as"
    "dedup_key ` set out =
      {k \<in> dedup_key ` set as. \<forall>t. last_seen d k = Some t \<longrightarrow> ttl \<le> now - t}"
    "last_seen d' k =
      (if k \<in> dedup_key ` set out then Some now
       else case last_seen d k of None \<Rightarrow> None
         | Some t \<Rightarrow> (if ttl \<le> now - t \<and> as \<noteq> [] then None else Some t))"
    by blast+
qed

interpretation dedup: rate_limiter Filter last_seen dedup_key "dedup_ok ttl" ttl for ttl
proof
  fix s now as s' out k t
  assume ok: "dedup_ok ttl s" and f: "Filter now as s = (s', out)"
  note sp = Filter_spec [OF ok f]
  show "dedup_ok ttl s'" "distinct (map dedup_key out)" "subseq out as" by (rule sp)+
  show "dedup_key ` set out =
    {k \<in> dedup_key ` set as. \<forall>t. last_seen s k = Some t \<longrightarrow> ttl \<le> now - t}" by (rule sp)
  show "last_seen s' k = Some now" if "k \<in> dedup_key ` set out"
    using that by (simp add: sp(5))
  show "last_seen s' k = Some t" if "last_seen s k = Some t" "now - t < ttl"
    using that sp(4) by (auto simp: sp(5))
  show "last_seen s k = Some t \<or> (t = now \<and> k \<in> dedup_key ` set out)" if "last_seen s' k = Some t"
    using that by (auto simp: sp(5) split: if_splits option.splits)
qed

lemma dedup_ok_New: "0 < ttl \<Longrightarrow> ttl \<le> max_duration \<Longrightarrow> dedup_ok ttl (NewDeduplicator ttl)"
  by (simp add: dedup_ok_def NewDeduplicator_def)

text \<open>Keys of alerts agree exactly when rule and root pid do, for rules without a NUL.\<close>

lemma dedup_key_inject:
  "CHR 0x00 \<notin> set (a_Rule a) \<Longrightarrow> CHR 0x00 \<notin> set (a_Rule b) \<Longrightarrow>
   dedup_key a = dedup_key b \<longleftrightarrow>
   a_Rule a = a_Rule b \<and> e_RootPid (a_Event a) = e_RootPid (a_Event b)"
  by (simp add: dedup_key_def sep_key_inject word_unat_eq_iff)

text \<open>The limiter invents nothing, whatever its state.\<close>

lemma filter_loop_incl: "set (snd (filter_loop now ttl seen as)) \<subseteq> set as"
proof (induction as arbitrary: seen)
  case (Cons a as)
  have "set (snd (filter_loop now ttl s as)) \<subseteq> insert a (set as)" for s using Cons by blast
  then show ?case
    by (cases "fmlookup seen (dedup_key a)")
      (auto simp: Let_def split: prod.splits dest: subsetD, (metis snd_conv subsetD insert_iff)+)
qed simp

lemma filter_loop_length: "length (snd (filter_loop now ttl seen as)) \<le> length as"
proof (induction as arbitrary: seen)
  case (Cons a as)
  then show ?case by (auto simp: Let_def le_SucI split: option.split prod.split) (metis snd_conv)+
qed simp

lemma Filter_length: "length (snd (Filter now as d)) \<le> length as"
  using filter_loop_length [of now "dd_ttl d" "evict now (dd_ttl d) (dd_seen d)" as]
  by (auto simp: Filter_def split: prod.split)

lemma Filter_incl: "Filter now as d = (d', out) \<Longrightarrow> set out \<subseteq> set as"
  using filter_loop_incl [of now "dd_ttl d" "evict now (dd_ttl d) (dd_seen d)" as]
  by (auto simp: Filter_def split: if_splits prod.splits)

section \<open>Properties of deduplication\<close>

lemma start_nothing_seen:
  "\<forall>k t. last_seen (NewDeduplicator ttl) k = Some t \<longrightarrow> (\<exists>b. dedup_key b = k \<and> (t, b) \<in> set [])"
  by (simp add: last_seen_def NewDeduplicator_def)

text \<open>
  No alert storm. For any sequence of calls whose clock does not go backwards, two alerts of one
  rule and one root process that are let through are at least the TTL apart.
\<close>

theorem Filter_spacing:
  assumes "0 < ttl" "ttl \<le> max_duration" "sorted (map fst calls)"
  shows "spaced dedup_key ttl (limit_run Filter (NewDeduplicator ttl) calls)"
  using assms by (intro dedup.run_spaced dedup_ok_New)

text \<open>Three calls at 0, 1 and 5 seconds with one alert each, from one root process.\<close>

definition storm_alert :: "string \<Rightarrow> Severity \<Rightarrow> Alert" where
  "storm_alert rule sev = mk_alert (zero_event\<lparr>e_RootPid := 42\<rparr>) rule sev ''text''"

definition three_calls :: "(int \<times> Alert list) list" where
  "three_calls =
     [(0, [storm_alert ''r'' SevLow]), (10 ^ 9, [storm_alert ''r'' SevLow]),
      (5 * 10 ^ 9, [storm_alert ''r'' SevLow])]"

theorem Filter_spacing_witness:
  "spaced dedup_key (5 * 10 ^ 9) (limit_run Filter (NewDeduplicator (5 * 10 ^ 9)) three_calls)"
  by (rule Filter_spacing) (simp_all add: max_duration_def three_calls_def)

text \<open>
  C18. No alert is lost without a trace. Every alert of every call is covered: an alert with the same
  rule and root process was let through at this call or less than the TTL before it.
\<close>

theorem Filter_coverage:
  assumes "0 < ttl" "ttl \<le> max_duration" "sorted (map fst calls)"
    and "(now, as) \<in> set calls" "a \<in> set as"
  shows "\<exists>t b. (t, b) \<in> set (limit_run Filter (NewDeduplicator ttl) calls) \<and>
    dedup_key b = dedup_key a \<and> t \<le> now \<and> now - t < ttl"
  using dedup.run_covered [OF assms(1) dedup_ok_New [OF assms(1,2)] assms(3) start_nothing_seen _ assms(4,5)]
  by simp

theorem Filter_coverage_witness:
  "\<exists>t b. (t, b) \<in> set (limit_run Filter (NewDeduplicator (5 * 10 ^ 9)) three_calls) \<and>
     dedup_key b = dedup_key (storm_alert ''r'' SevLow) \<and> t \<le> 10 ^ 9 \<and> 10 ^ 9 - t < 5 * 10 ^ 9"
  by (rule Filter_coverage [of _ _ "10 ^ 9" "[storm_alert ''r'' SevLow]"])
    (simp_all add: max_duration_def three_calls_def)

text \<open>
  One call: the result is a subsequence of the batch (order kept, nothing made up or changed) that
  has each key once; a key of the batch is in it exactly if it was not let through less than the
  TTL ago; afterwards the time of the keys let through is that of the call.
\<close>

theorem Filter_batch:
  assumes "dedup_ok ttl d" "Filter now as d = (d', out)"
  shows "subseq out as \<and> distinct (map dedup_key out) \<and>
    dedup_key ` set out = {k \<in> dedup_key ` set as. \<not> (\<exists>t. last_seen d k = Some t \<and> now - t < ttl)} \<and>
    {k \<in> dedup_key ` set out. last_seen d' k \<noteq> Some now} = {} \<and> dedup_ok ttl d'"
  using Filter_spec [OF assms] by (auto simp: not_less)

theorem Filter_batch_witness:
  "\<exists>d' out. Filter 7 [storm_alert ''r'' SevLow, storm_alert ''s'' SevHigh, storm_alert ''r'' SevHigh]
      (NewDeduplicator 5) = (d', out) \<and> dedup_key ` set out = {dedup_key (storm_alert ''r'' SevLow),
      dedup_key (storm_alert ''s'' SevHigh)}"
proof -
  let ?as = "[storm_alert ''r'' SevLow, storm_alert ''s'' SevHigh, storm_alert ''r'' SevHigh]"
  obtain d' out where f: "Filter 7 ?as (NewDeduplicator 5) = (d', out)" by force
  have "dedup_ok 5 (NewDeduplicator 5)" by (rule dedup_ok_New) (simp_all add: max_duration_def)
  from Filter_batch [OF this f] have "dedup_key ` set out = dedup_key ` set ?as"
    by (auto simp: last_seen_def NewDeduplicator_def)
  moreover have "dedup_key (storm_alert ''r'' SevHigh) = dedup_key (storm_alert ''r'' SevLow)"
    by (simp add: dedup_key_def storm_alert_def)
  ultimately show ?thesis using f by auto
qed

text \<open>
  The key has no severity: within the TTL an alert hides every later one of its rule and root
  process, a more severe one included. So an escalation from low to critical is not reported.
\<close>

theorem Filter_hides_escalation:
  assumes "dedup_ok ttl d" "Filter now [a] d = (d', [a])"
    and "a_Rule b = a_Rule a" "e_RootPid (a_Event b) = e_RootPid (a_Event a)"
    and "now \<le> later" "later - now < ttl"
  shows "snd (Filter later [b] d') = []"
proof -
  obtain d'' out where f: "Filter later [b] d' = (d'', out)" by force
  have ok: "dedup_ok ttl d'" using Filter_spec(1) [OF assms(1,2)] .
  have "last_seen d' (dedup_key a) = Some now" using Filter_spec(5) [OF assms(1,2)] by simp
  moreover have "dedup_key b = dedup_key a" using assms(3,4) by (simp add: dedup_key_def)
  ultimately have "dedup_key ` set out = {}" using Filter_spec(4) [OF ok f] assms(6) by auto
  with f show ?thesis by simp
qed

theorem Filter_hides_escalation_witness:
  "snd (Filter 3 [storm_alert ''r'' SevCritical]
     (fst (Filter 1 [storm_alert ''r'' SevLow] (NewDeduplicator 5)))) = []"
proof (rule Filter_hides_escalation)
  show "dedup_ok 5 (NewDeduplicator 5)" by (rule dedup_ok_New) (simp_all add: max_duration_def)
  show "Filter 1 [storm_alert ''r'' SevLow] (NewDeduplicator 5) =
      (fst (Filter 1 [storm_alert ''r'' SevLow] (NewDeduplicator 5)), [storm_alert ''r'' SevLow])"
    by (simp add: Filter_def NewDeduplicator_def evict_def Let_def)
qed (simp_all add: storm_alert_def)

end
