(* ===== verification/GoPath.thy ===== *)
theory GoPath
  imports GoStrings
begin

text \<open>
  \<open>path/filepath\<close> on Unix: \<open>Clean\<close>, \<open>Dir\<close> and \<open>Base\<close>. \<open>Clean\<close> is the single pass of the Go
  source over the path with an output buffer; \<open>dotdot\<close> is the buffer length below which
  a \<open>..\<close> may not back up.
\<close>

definition slash :: char where
  "slash = CHR ''/''"

definition dot :: char where
  "dot = CHR ''.''"

lemma slash_dot [simp]: "slash \<noteq> dot" "dot \<noteq> slash"
  by (simp_all add: slash_def dot_def)

text \<open>Backing up over the last element: drop a byte, then drop until a separator.\<close>

fun back_up :: "nat \<Rightarrow> string \<Rightarrow> string" where
  "back_up dotdot out =
     (if length out \<le> dotdot then out
      else if last out = slash then butlast out
      else back_up dotdot (butlast out))"

declare back_up.simps [simp del]

text \<open>
  \<open>out.w--\<close> and then \<open>for out.w > dotdot && out.index(out.w) != '/'\<close>: the loop looks at
  the byte just dropped.
\<close>

definition end_of_elem :: "string \<Rightarrow> bool" where
  "end_of_elem s \<longleftrightarrow> s = [] \<or> hd s = slash"

function clean_loop :: "bool \<Rightarrow> nat \<Rightarrow> string \<Rightarrow> string \<Rightarrow> string" where
  "clean_loop rooted dotdot out s =
     (if s = [] then out
      else if hd s = slash then clean_loop rooted dotdot out (tl s)
      else if hd s = dot \<and> end_of_elem (tl s) then clean_loop rooted dotdot out (tl s)
      else if hd s = dot \<and> tl s \<noteq> [] \<and> hd (tl s) = dot \<and> end_of_elem (tl (tl s)) then
        (if length out > dotdot then clean_loop rooted dotdot (back_up dotdot out) (tl (tl s))
         else if \<not> rooted then
           (let out = (if out \<noteq> [] then out @ [slash] else out) @ [dot, dot]
            in clean_loop rooted (length out) out (tl (tl s)))
         else clean_loop rooted dotdot out (tl (tl s)))
      else
        (let out = (if rooted \<and> length out \<noteq> 1 \<or> \<not> rooted \<and> out \<noteq> [] then out @ [slash] else out)
         in clean_loop rooted dotdot (out @ takeWhile (\<lambda>c. c \<noteq> slash) s)
              (dropWhile (\<lambda>c. c \<noteq> slash) s)))"
  by pat_completeness auto
termination
proof (relation "measure (\<lambda>(rooted, dotdot, out, s). length s)", goal_cases)
  case (7 rooted dotdot out s outa)
  then show ?case
    by (cases s) (auto simp: less_Suc_eq_le length_dropWhile_le)
qed auto

declare clean_loop.simps [simp del]

definition Clean :: "string \<Rightarrow> string" where
  "Clean path =
     (if path = [] then ''.''
      else let rooted = (hd path = slash);
               out = (if rooted then clean_loop True 1 [slash] (tl path)
                      else clean_loop False 0 [] path)
      in if out = [] then ''.'' else out)"

text \<open>\<open>Dir\<close>: clean what precedes the last separator, the separator included.\<close>

definition upto_last_slash :: "string \<Rightarrow> string" where
  "upto_last_slash path = rev (dropWhile (\<lambda>c. c \<noteq> slash) (rev path))"

definition Dir :: "string \<Rightarrow> string" where
  "Dir path = Clean (upto_last_slash path)"

text \<open>\<open>Base\<close>: strip trailing separators, then what follows the last separator.\<close>

definition Base :: "string \<Rightarrow> string" where
  "Base path =
     (if path = [] then ''.''
      else let p = rev (dropWhile (\<lambda>c. c = slash) (rev path));
               b = rev (takeWhile (\<lambda>c. c \<noteq> slash) (rev p))
      in if b = [] then ''/'' else b)"

text \<open>Files of one directory have the same \<open>Dir\<close>.\<close>

lemma upto_last_slash_file:
  assumes "slash \<notin> set f"
  shows "upto_last_slash (d @ slash # f) = d @ [slash]"
proof -
  have "\<forall>c \<in> set (rev f). c \<noteq> slash" using assms by auto
  from dropWhile_append2 [of "rev f" "\<lambda>c. c \<noteq> slash" "slash # rev d"] this
  show ?thesis by (simp add: upto_last_slash_def)
qed

lemma Dir_sibling: "slash \<notin> set f \<Longrightarrow> slash \<notin> set g \<Longrightarrow> Dir (d @ slash # f) = Dir (d @ slash # g)"
  by (simp add: Dir_def upto_last_slash_file)

end
