(* ===== verification/Baseline.thy ===== *)
theory Baseline
  imports GoPath GoNet Types
begin

text \<open>
  Learn and enforce mode, \<open>internal/baseline/baseline.go\<close>: the coarse key of an event, the
  learner that collects keys and the enforcer that reports an event whose key was not collected.
  \<open>makeKey\<close> returns the empty string for events that are not baselined.
\<close>

record Profile =
  pf_Version :: int
  pf_CreatedAt :: string
  pf_Seen :: "(string, bool) fmap"

record Learner =
  l_profile :: Profile

text \<open>\<open>created\<close> is the formatted reading of the clock.\<close>

definition NewLearner :: "string \<Rightarrow> Learner" where
  "NewLearner created =
     \<lparr>l_profile = \<lparr>pf_Version = 1, pf_CreatedAt = created, pf_Seen = fmempty\<rparr>\<rparr>"

definition makeKey :: "ChainEvent \<Rightarrow> string" where
  "makeKey evt =
     (let evtType = e_EventType evt;
          phase = Phase_String (e_Phase evt);
          comm = CommStr evt
      in
      if evtType = EvtNetConnect then
        ''net|'' @ phase @ ''|'' @ comm @ ''|'' @ IP_String (DstIP evt) @ ''|'' @
        dec_str (unat (e_Dport evt))
      else if evtType = EvtFileOpen \<or> evtType = EvtFileWrite then
        ''file|'' @ phase @ ''|'' @ comm @ ''|'' @ Dir (PathStr evt)
      else if evtType = EvtExec then
        ''exec|'' @ phase @ ''|'' @ comm @ ''|'' @ Dir (PathStr evt)
      else if evtType = EvtChmod then
        ''chmod|'' @ phase @ ''|'' @ comm @ ''|0'' @ oct_str (unat (e_NewMode evt AND 4095))
      else if evtType = EvtDnsLookup then
        ''dns|'' @ phase @ ''|'' @ comm @ ''|'' @ PathStr evt
      else [])"

definition Learn :: "ChainEvent \<Rightarrow> Learner \<Rightarrow> Learner" where
  "Learn evt l =
     (let key = makeKey evt in
      if key = [] then l
      else l\<lparr>l_profile := (l_profile l)\<lparr>pf_Seen := fmupd key True (pf_Seen (l_profile l))\<rparr>\<rparr>)"

record Enforcer =
  en_profile :: Profile

text \<open>Reading a Go map of booleans gives \<open>false\<close> for a missing key.\<close>

definition seen_key :: "Profile \<Rightarrow> string \<Rightarrow> bool" where
  "seen_key p key = (case fmlookup (pf_Seen p) key of None \<Rightarrow> False | Some b \<Rightarrow> b)"

definition Enforcer_Check :: "Enforcer \<Rightarrow> ChainEvent \<Rightarrow> Alert option" where
  "Enforcer_Check e evt =
     (let key = makeKey evt in
      if key = [] \<or> seen_key (en_profile e) key then None
      else Some (mk_alert evt ''baseline-deviation'' SevMedium
        (''behavior not seen in baseline ('' @ key @ '')'')))"

section \<open>The contract of a learned profile\<close>

text \<open>
  What enforcement relies on: learning an event allows exactly the events with its key, and
  events without a key are always allowed.
\<close>

locale behaviour_profile =
  fixes learn :: "'e \<Rightarrow> 's \<Rightarrow> 's" and allowed :: "'s \<Rightarrow> 'e \<Rightarrow> bool" and key :: "'e \<Rightarrow> 'k option"
  assumes allowed_learn:
      "key e = Some k \<Longrightarrow> allowed (learn x s) e \<longleftrightarrow> allowed s e \<or> key x = Some k"
    and allowed_ignored: "key e = None \<Longrightarrow> allowed s e"
begin

lemma allowed_run:
  "key e = Some k \<Longrightarrow> allowed (fold learn es s) e \<longleftrightarrow> allowed s e \<or> (\<exists>x \<in> set es. key x = Some k)"
  by (induction es arbitrary: s) (auto simp: allowed_learn)

lemma learned_allowed: "e \<in> set es \<Longrightarrow> allowed (fold learn es s) e"
  by (cases "key e") (auto simp: allowed_ignored allowed_run)

lemma allowed_mono: "allowed s e \<Longrightarrow> allowed (fold learn es s) e"
  by (cases "key e") (auto simp: allowed_ignored allowed_run)

end

definition event_key :: "ChainEvent \<Rightarrow> string option" where
  "event_key e = (if makeKey e = [] then None else Some (makeKey e))"

text \<open>An event is allowed if an enforcer with the learner's profile reports nothing.\<close>

definition within_baseline :: "Learner \<Rightarrow> ChainEvent \<Rightarrow> bool" where
  "within_baseline l e \<longleftrightarrow> Enforcer_Check \<lparr>en_profile = l_profile l\<rparr> e = None"

lemma seen_key_Learn:
  "seen_key (l_profile (Learn x l)) k \<longleftrightarrow> seen_key (l_profile l) k \<or> (k = makeKey x \<and> k \<noteq> [])"
  by (auto simp: Learn_def Let_def seen_key_def)

interpretation baseline: behaviour_profile Learn within_baseline event_key
  by unfold_locales
    (auto simp: within_baseline_def Enforcer_Check_def event_key_def Let_def seen_key_Learn
      split: if_splits)

section \<open>Keys\<close>

lemma Phase_String_no_bar: "CHR ''|'' \<notin> set (Phase_String p)"
  by (simp add: Phase_String_def)

lemma number_no_bar:
  "CHR ''|'' \<notin> set (dec_str n)" "CHR ''|'' \<notin> set (hex_str n)" "CHR ''|'' \<notin> set (oct_str n)"
  using itoa_chars [of "CHR ''|''" 10 n] itoa_chars [of "CHR ''|''" 16 n]
    itoa_chars [of "CHR ''|''" 8 n]
  by (auto simp: dec_str_def hex_str_def oct_str_def ord_def)

lemma Join_chars: "c \<in> set (Join sep ps) \<Longrightarrow> c \<in> set sep \<or> (\<exists>p \<in> set ps. c \<in> set p)"
  by (induction sep ps rule: Join.induct) auto

lemma IP_String_no_bar:
  assumes "length ip \<in> {4, 16}"
  shows "CHR ''|'' \<notin> set (IP_String ip)"
proof -
  have "CHR ''|'' \<notin> set (ipv4_str p)" for p
    using Join_chars [of "CHR ''|''" "''.''"] number_no_bar by (force simp: ipv4_str_def)
  moreover have "CHR ''|'' \<notin> set (Join '':'' (map hex_str gs))" for gs
    using Join_chars [of "CHR ''|''" "'':''"] number_no_bar by force
  then have "CHR ''|'' \<notin> set (ipv6_str ip)"
    by (cases "zero_scan (groups16 ip) 0 8 (255, 255)") (simp add: ipv6_str_def Let_def)
  ultimately show ?thesis
    using assms by (auto simp: IP_String_def split: option.split)
qed

text \<open>A key is its parts joined with bars; when no part holds a bar, the parts can be read off.\<close>

lemma makeKey_net:
  "e_EventType e = EvtNetConnect \<Longrightarrow>
   makeKey e = Join ''|'' [''net'', Phase_String (e_Phase e), CommStr e, IP_String (DstIP e),
     dec_str (unat (e_Dport e))]"
  by (simp add: makeKey_def)

lemma length_DstIP: "wf_event e \<Longrightarrow> length (DstIP e) \<in> {4, 16}"
  by (simp add: DstIP_def wf_event_def)

lemma net_key_parts:
  assumes "e_EventType e = EvtNetConnect" "wf_event e" "CHR ''|'' \<notin> set (CommStr e)"
  shows "Split (CHR ''|'') (makeKey e) =
    [''net'', Phase_String (e_Phase e), CommStr e, IP_String (DstIP e), dec_str (unat (e_Dport e))]"
  unfolding makeKey_net [OF assms(1)]
  by (rule Split_Join)
    (use assms IP_String_no_bar [OF length_DstIP [OF assms(2)]] in
      \<open>auto simp: Phase_String_no_bar number_no_bar\<close>)

lemma IP_String_canonical:
  "length ip \<in> {4, 16} \<Longrightarrow> length ip' \<in> {4, 16} \<Longrightarrow>
   canonical_ip ip = canonical_ip ip' \<longleftrightarrow> IP_String ip = IP_String ip'"
proof
  assume l: "length ip \<in> {4, 16}" "length ip' \<in> {4, 16}" and c: "canonical_ip ip = canonical_ip ip'"
  have s: "IP_String i = (if length (canonical_ip i) = 4 then ipv4_str (canonical_ip i)
      else ipv6_str (canonical_ip i))" if "length i \<in> {4, 16}" for i
    using that To4_len [of i]
    by (auto simp: IP_String_def canonical_ip_def split: option.split)
  show "IP_String ip = IP_String ip'" by (simp add: s [OF l(1)] s [OF l(2)] c)
qed (rule IP_String_inject)

lemma makeKey_ne: "makeKey e = [] \<longleftrightarrow> e_EventType e \<notin>
    {EvtExec, EvtFileOpen, EvtNetConnect, EvtFileWrite, EvtChmod, EvtDnsLookup}"
  by (auto simp: makeKey_def Let_def)

section \<open>Properties of learning and enforcing\<close>

text \<open>
  C19. Enforcement is exact. With the profile of a learning run, an event is reported exactly if it is
  of a kind that is baselined and no event of the run had its key; in particular replaying the
  run reports nothing, whatever was learned before or after.
\<close>

theorem enforce_learned:
  "Enforcer_Check \<lparr>en_profile = l_profile (fold Learn es (NewLearner created))\<rparr> e = None \<longleftrightarrow>
   makeKey e = [] \<or> makeKey e \<in> makeKey ` set es"
proof (cases "event_key e")
  case None
  then show ?thesis
    using baseline.allowed_ignored [OF None] by (simp add: within_baseline_def event_key_def split: if_splits)
next
  case (Some k)
  have "\<not> within_baseline (NewLearner created) e"
    using Some by (simp add: within_baseline_def Enforcer_Check_def Let_def seen_key_def
        NewLearner_def event_key_def split: if_splits)
  moreover have "makeKey e \<in> makeKey ` set es \<longleftrightarrow> (\<exists>x \<in> set es. makeKey x = makeKey e)"
    by (metis (no_types, lifting) image_iff)
  ultimately show ?thesis
    using baseline.allowed_run [OF Some, of es "NewLearner created"] Some
    by (auto simp: within_baseline_def event_key_def split: if_splits)
qed

text \<open>
  C32. Network connections are baselined exactly: two connections have the same key precisely if phase,
  process name, address and port agree, where an IPv4 address and its mapped form count as one
  (for process names without the separator).
\<close>

theorem net_key_exact:
  assumes "e_EventType e = EvtNetConnect" "wf_event e" "CHR ''|'' \<notin> set (CommStr e)"
    and "e_EventType e' = EvtNetConnect" "wf_event e'" "CHR ''|'' \<notin> set (CommStr e')"
  shows "makeKey e = makeKey e' \<longleftrightarrow>
    Phase_String (e_Phase e) = Phase_String (e_Phase e') \<and> CommStr e = CommStr e' \<and>
    canonical_ip (DstIP e) = canonical_ip (DstIP e') \<and> e_Dport e = e_Dport e'"
proof -
  have ip: "canonical_ip (DstIP e) = canonical_ip (DstIP e') \<longleftrightarrow>
      IP_String (DstIP e) = IP_String (DstIP e')"
    using length_DstIP assms(2,5) by (intro IP_String_canonical) blast+
  have port: "dec_str (unat (e_Dport e)) = dec_str (unat (e_Dport e')) \<longleftrightarrow> e_Dport e = e_Dport e'"
    by (simp add: word_unat_eq_iff)
  have "makeKey e = makeKey e' \<longleftrightarrow> Split (CHR ''|'') (makeKey e) = Split (CHR ''|'') (makeKey e')"
    by (metis Join_Split)
  then show ?thesis
    using net_key_parts [OF assms(1-3)] net_key_parts [OF assms(4-6)] ip port by simp
qed

definition connect_evt :: "byte list \<Rightarrow> byte \<Rightarrow> ChainEvent" where
  "connect_evt addr v6 =
     zero_event\<lparr>e_EventType := EvtNetConnect, e_Comm := c_array 16 ''curl'', e_Dport := 443,
       e_Daddr := addr, e_IsIPv6 := v6\<rparr>"

theorem net_key_exact_witness:
  "makeKey (connect_evt ([8, 8, 8, 8] @ replicate 12 0) 0) =
   makeKey (connect_evt (v4InV6Prefix @ [8, 8, 8, 8]) 1)"
proof -
  let ?a = "connect_evt ([8, 8, 8, 8] @ replicate 12 0) 0"
  let ?b = "connect_evt (v4InV6Prefix @ [8, 8, 8, 8]) 1"
  have c: "CommStr ?a = ''curl''" "CommStr ?b = ''curl''" by code_simp+
  have d: "DstIP ?a = [8, 8, 8, 8]" "DstIP ?b = v4InV6Prefix @ [8, 8, 8, 8]" by code_simp+
  have "canonical_ip (DstIP ?a) = canonical_ip (DstIP ?b)"
    unfolding d by (simp add: canonical_ip_def To4_def v4InV6Prefix_def)
  moreover have "wf_event ?a" "wf_event ?b"
    by (simp_all add: connect_evt_def wf_event_def zero_event_def v4InV6Prefix_def)
  moreover have "e_EventType ?a = EvtNetConnect" "e_EventType ?b = EvtNetConnect"
    "e_Phase ?a = e_Phase ?b" "e_Dport ?a = e_Dport ?b" by (simp_all add: connect_evt_def)
  ultimately show ?thesis using net_key_exact [of ?a ?b] c by simp
qed

text \<open>
  Files are baselined by directory: once a process was seen to open a file for reading or writing,
  the same process in the same phase may open every file of that directory, for either.
\<close>

theorem directory_allowed:
  assumes "e \<in> set es" "e_EventType e \<in> {EvtFileOpen, EvtFileWrite}"
    "e_EventType e' \<in> {EvtFileOpen, EvtFileWrite}"
    "e_Phase e' = e_Phase e" "CommStr e' = CommStr e"
    "PathStr e = dir @ ''/'' @ f" "PathStr e' = dir @ ''/'' @ g" "CHR ''/'' \<notin> set f \<union> set g"
  shows "within_baseline (fold Learn es l) e'"
proof -
  have "Dir (PathStr e') = Dir (PathStr e)"
    using Dir_sibling [of g f dir] assms(6-8) by (simp add: slash_def)
  then have k: "makeKey e' = makeKey e" "makeKey e \<noteq> []"
    using assms(2-5) by (auto simp: makeKey_def Let_def)
  then have "event_key e' = Some (makeKey e)" "event_key e = Some (makeKey e)"
    by (simp_all add: event_key_def)
  with baseline.allowed_run assms(1) show ?thesis by blast
qed

definition open_evt :: "byte \<Rightarrow> string \<Rightarrow> string \<Rightarrow> ChainEvent" where
  "open_evt ty comm path =
     zero_event\<lparr>e_EventType := ty, e_Comm := c_array 16 comm, e_Path := c_array 256 path\<rparr>"

theorem directory_allowed_witness:
  "within_baseline (fold Learn [open_evt EvtFileOpen ''make'' ''/etc/hosts''] (NewLearner ''t''))
     (open_evt EvtFileWrite ''make'' ''/etc/passwd'')"
proof (rule directory_allowed [where dir = "''/etc''" and f = "''hosts''" and g = "''passwd''"])
  show "open_evt EvtFileOpen ''make'' ''/etc/hosts'' \<in> set [open_evt EvtFileOpen ''make'' ''/etc/hosts'']"
    by simp
  show "CommStr (open_evt EvtFileWrite ''make'' ''/etc/passwd'') =
      CommStr (open_evt EvtFileOpen ''make'' ''/etc/hosts'')" by code_simp
  show "PathStr (open_evt EvtFileOpen ''make'' ''/etc/hosts'') = ''/etc'' @ ''/'' @ ''hosts''"
    "PathStr (open_evt EvtFileWrite ''make'' ''/etc/passwd'') = ''/etc'' @ ''/'' @ ''passwd''"
    by code_simp+
qed (simp_all add: open_evt_def zero_event_def)

text \<open>
  What enforcement never sees: memory files, anonymous execution, BPF program loads and unknown
  event types have no key, so no profile reports them; every other kind has one.
\<close>

theorem unkeyed_events:
  "(makeKey e = [] \<longleftrightarrow> e_EventType e \<notin>
     {EvtExec, EvtFileOpen, EvtNetConnect, EvtFileWrite, EvtChmod, EvtDnsLookup}) \<and>
   (if e_EventType e \<in> {EvtMemfdCreate, EvtExecveat, EvtBpfLoad} then Enforcer_Check en e = None
    else True)"
  by (auto simp: makeKey_ne Enforcer_Check_def)

text \<open>
  The separator is not escaped: a process that may choose its name can produce the key of another
  behaviour. Here the program \<open>a\<close> run from the directory \<open>b|c\<close> and the program \<open>a|b\<close> run from
  the directory \<open>c\<close> have one key, so a profile that has seen the one allows the other.
\<close>

theorem key_collision:
  "makeKey (open_evt EvtExec ''a|b'' ''c/x'') = makeKey (open_evt EvtExec ''a'' ''b|c/x'') \<and>
   CommStr (open_evt EvtExec ''a|b'' ''c/x'') \<noteq> CommStr (open_evt EvtExec ''a'' ''b|c/x'') \<and>
   within_baseline (Learn (open_evt EvtExec ''a'' ''b|c/x'') (NewLearner ''t''))
     (open_evt EvtExec ''a|b'' ''c/x'')"
proof -
  have k: "makeKey (open_evt EvtExec ''a|b'' ''c/x'') = ''exec|unknown|a|b|c''"
    "makeKey (open_evt EvtExec ''a'' ''b|c/x'') = ''exec|unknown|a|b|c''" by code_simp+
  have c: "CommStr (open_evt EvtExec ''a|b'' ''c/x'') = ''a|b''"
    "CommStr (open_evt EvtExec ''a'' ''b|c/x'') = ''a''" by code_simp+
  show ?thesis
    using k c by (simp add: within_baseline_def Enforcer_Check_def Let_def seen_key_Learn)
qed

end
