(* ===== verification/GoJson.thy ===== *)
theory GoJson
  imports GoUtf8
begin

text \<open>
  The encoder of \<open>encoding/json\<close> for the values the program marshals: strings with HTML escaping
  (\<open>appendString\<close>), numbers, booleans, \<open>null\<close>, arrays and objects with their members in order;
  \<open>json.Marshal\<close> is \<open>render\<close>, \<open>json.MarshalIndent\<close> with two spaces is \<open>render_indent\<close>.
\<close>

datatype json =
    JNull
  | JBool bool
  | JNum nat
  | JInt int
  | JStr string
  | JArr "json list"
  | JObj "(string \<times> json) list"

section \<open>Strings\<close>

definition html_safe :: "nat \<Rightarrow> bool" where
  "html_safe b \<longleftrightarrow> 0x20 \<le> b \<and> b \<notin> {0x22, 0x26, 0x3C, 0x3E, 0x5C}"

definition json_ascii :: "char \<Rightarrow> string" where
  "json_ascii c =
     (let b = ord c in
      if html_safe b then [c]
      else if b = 0x5C \<or> b = 0x22 then [CHR 0x5C, c]
      else if b = 0x08 then [CHR 0x5C, CHR ''b'']
      else if b = 0x0C then [CHR 0x5C, CHR ''f'']
      else if b = 0x0A then [CHR 0x5C, CHR ''n'']
      else if b = 0x0D then [CHR 0x5C, CHR ''r'']
      else if b = 0x09 then [CHR 0x5C, CHR ''t'']
      else [CHR 0x5C] @ ''u00'' @ hex_byte b)"

function json_body :: "string \<Rightarrow> string" where
  "json_body s =
     (if s = [] then []
      else if ord (hd s) < 0x80 then json_ascii (hd s) @ json_body (tl s)
      else let r = fst (DecodeRune s); w = snd (DecodeRune s) in
      (if r = RuneError \<and> w = 1 then [CHR 0x5C] @ ''ufffd''
       else if r = 0x2028 \<or> r = 0x2029 then [CHR 0x5C] @ ''u202'' @ [digit_char (r mod 16)]
       else take w s) @ json_body (drop (snd (DecodeRune s)) s))"
  by pat_completeness auto
termination
proof (relation "measure length")
  fix s :: string
  assume "s \<noteq> []"
  then show "(tl s, s) \<in> measure length" by (cases s) auto
next
  fix s :: string
  assume "s \<noteq> []"
  then show "(drop (snd (DecodeRune s)) s, s) \<in> measure length"
    using DecodeRune_width [of s] by simp
qed simp

declare json_body.simps [simp del]

definition json_string :: "string \<Rightarrow> string" where
  "json_string s = [CHR 0x22] @ json_body s @ [CHR 0x22]"

section \<open>Values\<close>

fun render :: "json \<Rightarrow> string" where
  "render JNull = ''null''"
| "render (JBool b) = (if b then ''true'' else ''false'')"
| "render (JNum n) = dec_str n"
| "render (JInt i) = int_str i"
| "render (JStr s) = json_string s"
| "render (JArr vs) = ''['' @ Join '','' (map render vs) @ '']''"
| "render (JObj ms) =
     ''{'' @ Join '','' (map (\<lambda>(k, v). json_string k @ '':'' @ render v) ms) @ ''}''"

definition json_break :: "nat \<Rightarrow> string" where
  "json_break d = CHR 0x0A # replicate (2 * d) (CHR '' '')"

fun render_indent :: "nat \<Rightarrow> json \<Rightarrow> string" where
  "render_indent d (JArr vs) =
     (if vs = [] then ''[]''
      else ''['' @ json_break (Suc d) @
        Join ('','' @ json_break (Suc d)) (map (render_indent (Suc d)) vs) @ json_break d @ '']'')"
| "render_indent d (JObj ms) =
     (if ms = [] then ''{}''
      else ''{'' @ json_break (Suc d) @
        Join ('','' @ json_break (Suc d))
          (map (\<lambda>(k, v). json_string k @ '': '' @ render_indent (Suc d) v) ms) @
        json_break d @ ''}'')"
| "render_indent d v = render v"

section \<open>No control bytes\<close>

definition no_control :: "string \<Rightarrow> bool" where
  "no_control s \<longleftrightarrow> (\<forall>c \<in> set s. 0x20 \<le> ord c)"

lemma no_control_simps [simp]:
  "no_control []" "no_control (s @ t) \<longleftrightarrow> no_control s \<and> no_control t"
  "no_control (c # s) \<longleftrightarrow> 0x20 \<le> ord c \<and> no_control s"
  by (auto simp: no_control_def)

lemma printable_no_control: "printable_bytes s \<Longrightarrow> no_control s"
  by (auto simp: printable_bytes_def no_control_def)

lemma no_control_json_ascii: "no_control (json_ascii c)"
  using printable_hex_byte [of "ord c"]
  by (auto simp: json_ascii_def Let_def html_safe_def printable_no_control ord_def)

lemma no_control_json_body: "no_control (json_body s)"
proof (induction s rule: json_body.induct)
  case (1 s)
  show ?case
  proof (cases "s = []")
    case True
    then show ?thesis by (simp add: json_body.simps)
  next
    case ne: False
    have IH: "no_control (json_body (drop (snd (DecodeRune s)) s))"
      if "\<not> ord (hd s) < 0x80" using that "1.IH"(2) ne by simp
    have d: "no_control [digit_char (r mod 16)]" for r
      using ord_digit_char [of "r mod 16"] by simp
    show ?thesis
      using ne
    proof (cases rule: DecodeRune_cases)
      case ascii
      with ne "1.IH"(1) show ?thesis
        by (subst json_body.simps) (simp add: no_control_json_ascii)
    next
      case bad
      with ne IH show ?thesis
        by (subst json_body.simps) (simp add: ord_def)
    next
      case (multi r w)
      have "\<not> ord (hd s) < 0x80" using multi(2,4) ne by (cases s; cases w) auto
      moreover have "no_control (take w s)" using multi(4) by (auto simp: no_control_def)
      ultimately show ?thesis
        using ne multi(1) IH d [of r] by (subst json_body.simps) (auto simp: ord_def)
    qed
  qed
qed

lemma no_control_json_string: "no_control (json_string s)"
  by (simp add: json_string_def no_control_json_body ord_def)

lemma no_control_Join: "no_control sep \<Longrightarrow> \<forall>p \<in> set ps. no_control p \<Longrightarrow> no_control (Join sep ps)"
  by (induction sep ps rule: Join.induct) auto

lemma no_control_render: "no_control (render v)"
proof (induction v)
  case (JNum n)
  then show ?case
    by (simp add: printable_no_control printable_itoa dec_str_def)
next
  case (JInt i)
  then show ?case
    by (simp add: printable_no_control printable_itoa dec_str_def int_str_def ord_def)
next
  case (JArr vs)
  then show ?case by (auto simp: ord_def intro!: no_control_Join)
next
  case (JObj ms)
  then show ?case
    by (auto simp: ord_def no_control_json_string intro!: no_control_Join)
qed (auto simp: ord_def no_control_json_string)

end
