(* ===== verification/Output.thy ===== *)
theory Output
  imports GoJson GoNet Types
begin

text \<open>
  Text and JSON output, \<open>internal/output/output.go\<close>. Each \<open>Write\<close> operation is the string it
  prints; \<open>ts\<close> is the formatted clock reading that the call takes.
\<close>

definition ESC :: char where
  "ESC = CHR 0x1B"

definition colorReset :: string where "colorReset = ESC # ''[0m''"
definition colorRed :: string where "colorRed = ESC # ''[31m''"
definition colorYellow :: string where "colorYellow = ESC # ''[33m''"
definition colorCyan :: string where "colorCyan = ESC # ''[36m''"
definition colorGray :: string where "colorGray = ESC # ''[90m''"

definition line_feed :: string where
  "line_feed = [CHR 0x0A]"

text \<open>A member with the tag \<open>omitempty\<close>.\<close>

definition omit_str :: "string \<Rightarrow> string \<Rightarrow> (string \<times> json) list" where
  "omit_str k s = (if s = [] then [] else [(k, JStr s)])"

definition omit_num :: "string \<Rightarrow> nat \<Rightarrow> (string \<times> json) list" where
  "omit_num k n = (if n = 0 then [] else [(k, JNum n)])"

record jsonEvent =
  je_Path :: string
  je_Argv :: string
  je_EnvFlags :: u32
  je_ExecFlags :: u32
  je_DstIP :: string
  je_DstPort :: u16
  je_NewMode :: string

definition alert_json :: "string \<Rightarrow> Alert \<Rightarrow> json" where
  "alert_json ts a =
     (let evt = a_Event a in
      JObj ([(''time'', JStr ts), (''rule'', JStr (a_Rule a)),
             (''severity'', JStr (Severity_String (a_Severity a))),
             (''pid'', JNum (unat (e_Pid evt))), (''comm'', JStr (CommStr evt)),
             (''root_comm'', JStr (RootCommStr evt)),
             (''phase'', JStr (Phase_String (e_Phase evt))),
             (''description'', JStr (a_Description a))] @
            omit_str ''container_id'' (a_ContainerID a) @ omit_str ''runtime'' (a_Runtime a) @
            omit_str ''pod_name'' (a_PodName a) @ omit_str ''namespace'' (a_Namespace a)))"

definition writeAlertJSON :: "string \<Rightarrow> Alert \<Rightarrow> string" where
  "writeAlertJSON ts a = render (alert_json ts a) @ line_feed"

definition severityColor :: "Severity \<Rightarrow> string" where
  "severityColor s =
     (if s = SevCritical \<or> s = SevHigh then colorRed
      else if s = SevMedium then colorYellow
      else colorCyan)"

definition writeAlertText :: "string \<Rightarrow> Alert \<Rightarrow> string" where
  "writeAlertText ts a =
     (let color = severityColor (a_Severity a);
          suffix =
            (if a_ContainerID a \<noteq> [] then
               (if a_PodName a \<noteq> [] then '' ['' @ a_Runtime a @ '' pod='' @ a_PodName a @ '']''
                else '' ['' @ a_Runtime a @ ''/'' @ a_ContainerID a @ '']'')
             else [])
      in color @ ''['' @ ts @ '' '' @ Severity_String (a_Severity a) @ ''] '' @ a_Description a @
         suffix @ colorReset @ line_feed)"

text \<open>The \<open>switch\<close> of \<open>writeEventJSON\<close> fills in the optional members.\<close>

definition event_rec :: "ChainEvent \<Rightarrow> jsonEvent" where
  "event_rec evt =
     (let rec = \<lparr>je_Path = [], je_Argv = [], je_EnvFlags = 0, je_ExecFlags = 0, je_DstIP = [],
                 je_DstPort = 0, je_NewMode = []\<rparr>;
          t = e_EventType evt
      in
      if t = EvtExec then
        rec\<lparr>je_Path := PathStr evt, je_Argv := ArgvStr evt, je_EnvFlags := e_EnvFlags evt,
            je_ExecFlags := e_ExecFlags evt\<rparr>
      else if t = EvtFileOpen \<or> t = EvtFileWrite \<or> t = EvtDnsLookup then
        rec\<lparr>je_Path := PathStr evt\<rparr>
      else if t = EvtNetConnect then
        rec\<lparr>je_DstIP := IP_String (DstIP evt), je_DstPort := e_Dport evt\<rparr>
      else if t = EvtChmod then
        rec\<lparr>je_Path := PathStr evt, je_NewMode := ''0'' @ oct_str (unat (e_NewMode evt AND 4095))\<rparr>
      else rec)"

definition event_json :: "string \<Rightarrow> ChainEvent \<Rightarrow> json" where
  "event_json ts evt =
     (let rec = event_rec evt in
      JObj ([(''time'', JStr ts), (''event_type'', JStr (EventType_String (e_EventType evt))),
             (''phase'', JStr (Phase_String (e_Phase evt))),
             (''pid'', JNum (unat (e_Pid evt))), (''comm'', JStr (CommStr evt)),
             (''root_comm'', JStr (RootCommStr evt))] @
            omit_str ''path'' (je_Path rec) @ omit_str ''argv'' (je_Argv rec) @
            omit_num ''env_flags'' (unat (je_EnvFlags rec)) @
            omit_num ''exec_flags'' (unat (je_ExecFlags rec)) @
            omit_str ''dst_ip'' (je_DstIP rec) @ omit_num ''dst_port'' (unat (je_DstPort rec)) @
            omit_str ''new_mode'' (je_NewMode rec)))"

definition writeEventJSON :: "string \<Rightarrow> ChainEvent \<Rightarrow> string" where
  "writeEventJSON ts evt = render (event_json ts evt) @ line_feed"

definition event_detail :: "ChainEvent \<Rightarrow> string" where
  "event_detail evt =
     (let t = e_EventType evt in
      if t = EvtExec then
        PathStr evt @ (let argv = ArgvStr evt in if argv \<noteq> [] then '' '' @ argv else [])
      else if t = EvtFileOpen then PathStr evt
      else if t = EvtFileWrite then ''WRITE '' @ PathStr evt
      else if t = EvtNetConnect then IP_String (DstIP evt) @ '':'' @ dec_str (unat (e_Dport evt))
      else if t = EvtMemfdCreate then MemfdNameStr evt
      else if t = EvtChmod then
        PathStr evt @ '' mode=0'' @ oct_str (unat (e_NewMode evt AND 4095))
      else if t = EvtDnsLookup then ''resolve '' @ PathStr evt
      else if t = EvtBpfLoad then ''BPF_PROG_LOAD''
      else [])"

definition writeEventText :: "string \<Rightarrow> ChainEvent \<Rightarrow> string" where
  "writeEventText ts evt =
     colorGray @ ''['' @ ts @ ''] '' @ fmt_left 14 (EventType_String (e_EventType evt)) @ '' '' @
     fmt_left 10 (Phase_String (e_Phase evt)) @ '' pid='' @
     pad_right 6 (dec_str (unat (e_Pid evt))) @ '' comm='' @ fmt_left 16 (CommStr evt) @ '' '' @
     event_detail evt @ colorReset @ line_feed"

record Writer =
  w_json :: bool

definition WriteAlert :: "Writer \<Rightarrow> string \<Rightarrow> Alert \<Rightarrow> string" where
  "WriteAlert w ts a = (if w_json w then writeAlertJSON ts a else writeAlertText ts a)"

definition WriteEvent :: "Writer \<Rightarrow> string \<Rightarrow> ChainEvent \<Rightarrow> string" where
  "WriteEvent w ts evt = (if w_json w then writeEventJSON ts evt else writeEventText ts evt)"

section \<open>Properties of the output\<close>


end
