(* ===== verification/Metrics.thy ===== *)
theory Metrics
  imports GoUtf8 "HOL-Library.Multiset"
begin

text \<open>
  Prometheus metrics, \<open>internal/metrics/metrics.go\<close>. The counters are 64-bit words, as the
  atomics wrap. \<open>sync.Map.Range\<close> visits the entries in an unspecified order: \<open>rng\<close> is the order
  of one scrape. The rows are then sorted by key, so the response does not depend on \<open>rng\<close>;
  \<open>kv\<close> gets a linear order that refines the code's comparison, so that the library's sorting
  lemmas apply.
\<close>

record Server =
  s_eventCount :: u64
  s_procCount :: u64
  s_droppedCount :: u64
  s_alertCounts :: "(string, u64) fmap"

definition New_Server :: Server where
  "New_Server =
     \<lparr>s_eventCount = 0, s_procCount = 0, s_droppedCount = 0, s_alertCounts = fmempty\<rparr>"

definition RecordEvent :: "Server \<Rightarrow> Server" where
  "RecordEvent s = s\<lparr>s_eventCount := s_eventCount s + 1\<rparr>"

definition SetProcTreeSize :: "nat \<Rightarrow> Server \<Rightarrow> Server" where
  "SetProcTreeSize n s = s\<lparr>s_procCount := of_nat n\<rparr>"

definition SetDropped :: "u64 \<Rightarrow> Server \<Rightarrow> Server" where
  "SetDropped n s = s\<lparr>s_droppedCount := n\<rparr>"

definition alert_key :: "string \<Rightarrow> string \<Rightarrow> string" where
  "alert_key rule severity = rule @ [CHR 0x00] @ severity"

text \<open>\<open>LoadOrStore\<close> of a zero counter, then \<open>Add(1)\<close>.\<close>

definition RecordAlert :: "string \<Rightarrow> string \<Rightarrow> Server \<Rightarrow> Server" where
  "RecordAlert rule severity s =
     (let key = alert_key rule severity;
          v = (case fmlookup (s_alertCounts s) key of None \<Rightarrow> 0 | Some n \<Rightarrow> n)
      in s\<lparr>s_alertCounts := fmupd key (v + 1) (s_alertCounts s)\<rparr>)"

section \<open>Rows in key order\<close>

text \<open>Go compares strings byte by byte.\<close>

fun str_less :: "string \<Rightarrow> string \<Rightarrow> bool" where
  "str_less [] [] = False"
| "str_less [] (d # t) = True"
| "str_less (c # s) [] = False"
| "str_less (c # s) (d # t) = (ord c < ord d \<or> ord c = ord d \<and> str_less s t)"

lemma str_less_irrefl [simp]: "\<not> str_less s s"
  by (induction s) auto

lemma str_less_trans: "str_less s t \<Longrightarrow> str_less t u \<Longrightarrow> str_less s u"
proof (induction s t arbitrary: u rule: str_less.induct)
  case (4 c s d t)
  then show ?case by (cases u) auto
qed (case_tac u; auto)+

lemma str_less_total: "str_less s t \<or> s = t \<or> str_less t s"
  by (induction s t rule: str_less.induct) (auto simp: ord_inject [symmetric])

datatype kv = KV (kv_key: string) (kv_rule: string) (kv_severity: string) (kv_n: u64)

instantiation kv :: linorder
begin

text \<open>By key; the other members only make the order antisymmetric.\<close>

definition less_kv :: "kv \<Rightarrow> kv \<Rightarrow> bool" where
  "less_kv a b \<longleftrightarrow>
     str_less (kv_key a) (kv_key b) \<or>
     kv_key a = kv_key b \<and>
       (str_less (kv_rule a) (kv_rule b) \<or>
        kv_rule a = kv_rule b \<and>
          (str_less (kv_severity a) (kv_severity b) \<or>
           kv_severity a = kv_severity b \<and> kv_n a < kv_n b))"

definition less_eq_kv :: "kv \<Rightarrow> kv \<Rightarrow> bool" where
  "less_eq_kv a b \<longleftrightarrow> a = b \<or> a < (b :: kv)"

instance
proof
  fix a b c :: kv
  have irr: "\<not> x < x" for x :: kv by (simp add: less_kv_def)
  have tr: "x < z" if "x < y" "y < z" for x y z :: kv
    using that by (auto simp: less_kv_def dest: str_less_trans)
  have tot: "x < y \<or> x = y \<or> y < x" for x y :: kv
    using str_less_total [of "kv_key x" "kv_key y"] str_less_total [of "kv_rule x" "kv_rule y"]
      str_less_total [of "kv_severity x" "kv_severity y"]
    by (cases x; cases y) (auto simp: less_kv_def)
  show "(a < b) = (a \<le> b \<and> \<not> b \<le> a)" using irr tr by (auto simp: less_eq_kv_def)
  show "a \<le> a" by (simp add: less_eq_kv_def)
  show "a \<le> b \<Longrightarrow> b \<le> c \<Longrightarrow> a \<le> c" using tr by (auto simp: less_eq_kv_def)
  show "a \<le> b \<Longrightarrow> b \<le> a \<Longrightarrow> a = b" using irr tr by (auto simp: less_eq_kv_def)
  show "a \<le> b \<or> b \<le> a" using tot by (auto simp: less_eq_kv_def)
qed

end

section \<open>\<open>ServeHTTP\<close>\<close>

text \<open>The body of the \<open>Range\<close> callback: an entry whose key splits in two gives a row.\<close>

definition row_of :: "string \<times> u64 \<Rightarrow> kv list" where
  "row_of e =
     (case SplitN2 (CHR 0x00) (fst e) of
        [rule, severity] \<Rightarrow> [KV (fst e) rule severity (snd e)]
      | _ \<Rightarrow> [])"

definition nl :: string where
  "nl = [CHR 0x0A]"

definition row_line :: "(nat \<Rightarrow> bool) \<Rightarrow> kv \<Rightarrow> string" where
  "row_line pr row =
     ''chainscope_alerts_total{rule='' @ Quote pr (kv_rule row) @ '',severity='' @
     Quote pr (kv_severity row) @ ''} '' @ int_str (sint (kv_n row)) @ nl"

definition ServeHTTP ::
  "(nat \<Rightarrow> bool) \<Rightarrow> ((string, u64) fmap \<Rightarrow> (string \<times> u64) list) \<Rightarrow> Server \<Rightarrow> string" where
  "ServeHTTP pr rng s =
     (let rows = sort (concat (map row_of (rng (s_alertCounts s)))) in
      ''# HELP chainscope_events_total Total eBPF events processed.'' @ nl @
      ''# TYPE chainscope_events_total counter'' @ nl @
      ''chainscope_events_total '' @ int_str (sint (s_eventCount s)) @ nl @ nl @
      ''# HELP chainscope_proctree_size Number of processes currently tracked.'' @ nl @
      ''# TYPE chainscope_proctree_size gauge'' @ nl @
      ''chainscope_proctree_size '' @ int_str (sint (s_procCount s)) @ nl @ nl @
      ''# HELP chainscope_ringbuf_dropped_total Events dropped due to ring buffer overflow.'' @ nl @
      ''# TYPE chainscope_ringbuf_dropped_total counter'' @ nl @
      ''chainscope_ringbuf_dropped_total '' @ dec_str (unat (s_droppedCount s)) @ nl @ nl @
      (if rows \<noteq> [] then
         ''# HELP chainscope_alerts_total Alerts triggered, by rule and severity.'' @ nl @
         ''# TYPE chainscope_alerts_total counter'' @ nl @
         concat (map (row_line pr) rows)
       else []))"

text \<open>
  \<open>ListenAndServe\<close>: the two exact patterns of the mux, each with its handler. The handler gives the
  content type and the body; every other clean path gets the mux's 404.
\<close>

datatype handler = MetricsHandler | HealthzHandler

definition mux_routes :: "(string \<times> handler) list" where
  "mux_routes = [(''/metrics'', MetricsHandler), (''/healthz'', HealthzHandler)]"

definition healthz :: "string \<times> string" where
  "healthz = (''text/plain'', ''ok'' @ nl)"

definition serve ::
  "(nat \<Rightarrow> bool) \<Rightarrow> ((string, u64) fmap \<Rightarrow> (string \<times> u64) list) \<Rightarrow> Server \<Rightarrow> string \<Rightarrow>
   (string \<times> string) option" where
  "serve pr rng s path =
     (case map_of mux_routes path of
        None \<Rightarrow> None
      | Some MetricsHandler \<Rightarrow> Some (''text/plain; version=0.0.4; charset=utf-8'', ServeHTTP pr rng s)
      | Some HealthzHandler \<Rightarrow> Some healthz)"

lemma serve_paths:
  "serve pr rng s path \<noteq> None \<longleftrightarrow> path = ''/metrics'' \<or> path = ''/healthz''"
  "serve pr rng s ''/healthz'' = Some healthz"
  by (auto simp: serve_def mux_routes_def split: option.splits handler.splits if_splits)

section \<open>Counting\<close>

definition alert_count :: "string \<Rightarrow> string \<Rightarrow> Server \<Rightarrow> u64" where
  "alert_count rule severity s =
     (case fmlookup (s_alertCounts s) (alert_key rule severity) of None \<Rightarrow> 0 | Some n \<Rightarrow> n)"

lemma alert_key_inject:
  "CHR 0x00 \<notin> set r \<Longrightarrow> CHR 0x00 \<notin> set r' \<Longrightarrow> alert_key r s = alert_key r' s' \<longleftrightarrow> r = r' \<and> s = s'"
  by (simp add: alert_key_def sep_key_inject)

lemma alert_count_RecordAlert:
  "CHR 0x00 \<notin> set r \<Longrightarrow> CHR 0x00 \<notin> set rule \<Longrightarrow>
   alert_count r v (RecordAlert rule severity s) =
     (if r = rule \<and> v = severity then alert_count r v s + 1 else alert_count r v s)"
  by (auto simp: alert_count_def RecordAlert_def Let_def alert_key_inject)

section \<open>The order of iteration\<close>

definition counts_range :: "(string \<times> u64) list \<Rightarrow> (string, u64) fmap \<Rightarrow> bool" where
  "counts_range es m \<longleftrightarrow> distinct (map fst es) \<and> (\<forall>k v. (k, v) \<in> set es \<longleftrightarrow> fmlookup m k = Some v)"

lemma counts_range_mset: "counts_range es m \<Longrightarrow> counts_range es' m \<Longrightarrow> mset es = mset es'"
  by (rule set_eq_iff_mset_eq_distinct [THEN iffD1])
    (auto simp: counts_range_def distinct_map)

lemma mset_rows: "mset es = mset es' \<Longrightarrow> mset (concat (map row_of es)) = mset (concat (map row_of es'))"
proof -
  assume "mset es = mset es'"
  moreover have "mset (concat (map row_of xs)) = (\<Sum>e \<in># mset xs. mset (row_of e))" for xs
    by (induction xs) auto
  ultimately show ?thesis by simp
qed

section \<open>Properties of the metrics\<close>

definition record_all :: "(string \<times> string) list \<Rightarrow> Server \<Rightarrow> Server" where
  "record_all as s = fold (\<lambda>(rule, severity). RecordAlert rule severity) as s"

lemma record_all_snoc: "record_all (as @ [(r, v)]) s = RecordAlert r v (record_all as s)"
  by (simp add: record_all_def)

text \<open>The map after a run: one counter for each key, modulo 64 bits.\<close>

lemma lookup_record_all:
  "fmlookup (s_alertCounts (record_all as New_Server)) k =
     (let n = length (filter (\<lambda>(r, v). alert_key r v = k) as)
      in if n = 0 then None else Some (of_nat n))"
proof (induction as rule: rev_induct)
  case Nil
  then show ?case by (simp add: record_all_def New_Server_def)
next
  case (snoc x as)
  obtain r v where x: "x = (r, v)" by force
  show ?case
    using snoc by (auto simp: x record_all_snoc RecordAlert_def Let_def split: if_splits)
qed

definition rules_ok :: "(string \<times> string) list \<Rightarrow> bool" where
  "rules_ok as \<longleftrightarrow> (\<forall>(r, v) \<in> set as. CHR 0x00 \<notin> set r)"

lemma filter_alert_key:
  "rules_ok as \<Longrightarrow> CHR 0x00 \<notin> set r \<Longrightarrow>
   length (filter (\<lambda>(r', v'). alert_key r' v' = alert_key r v) as) = count_list as (r, v)"
  by (induction as) (auto simp: rules_ok_def alert_key_inject)

lemma row_of_alert_key: "CHR 0x00 \<notin> set r \<Longrightarrow> row_of (alert_key r v, n) = [KV (alert_key r v) r v n]"
  by (simp add: row_of_def alert_key_def SplitN2_append)

text \<open>
  C33. The counters count: after any run of alerts from a fresh server the counter of a rule and severity
  is the number of alerts recorded with them, modulo 64 bits, and a scrape has one row for each
  pair that occurred, with that number (for rule names without NUL).
\<close>

theorem scrape_counts:
  assumes "rules_ok as" "counts_range es (s_alertCounts (record_all as New_Server))"
  shows "distinct (concat (map row_of es)) \<and>
    set (concat (map row_of es)) =
      (\<lambda>(r, v). KV (alert_key r v) r v (of_nat (count_list as (r, v)))) ` set as"
proof
  have el: "e \<in> set es \<longleftrightarrow> (\<exists>(r, v) \<in> set as. e = (alert_key r v, of_nat (count_list as (r, v))))" for e
  proof -
    obtain k n where e: "e = (k, n)" by force
    have "e \<in> set es \<longleftrightarrow> fmlookup (s_alertCounts (record_all as New_Server)) k = Some n"
      using assms(2) by (simp add: e counts_range_def)
    also have "\<dots> \<longleftrightarrow> (\<exists>(r, v) \<in> set as. k = alert_key r v) \<and>
        of_nat (length (filter (\<lambda>(r, v). alert_key r v = k) as)) = n"
      by (auto simp: lookup_record_all Let_def filter_empty_conv)
    also have "\<dots> \<longleftrightarrow> (\<exists>(r, v) \<in> set as. e = (alert_key r v, of_nat (count_list as (r, v))))"
      using assms(1) filter_alert_key [OF assms(1)] by (fastforce simp: e rules_ok_def)
    finally show ?thesis .
  qed
  have row: "row_of e = [KV (fst e) (fst rv) (snd rv) (snd e)]"
    if "rv \<in> set as" "fst e = alert_key (fst rv) (snd rv)" for e rv
    using that assms(1) row_of_alert_key [of "fst rv" "snd rv" "snd e"]
    by (cases e) (auto simp: rules_ok_def split_beta)
  have one: "\<exists>x. row_of e = [x] \<and> kv_key x = fst e" if "e \<in> set es" for e
    using that row el [of e] by fastforce
  have dist: "distinct (map fst es)" using assms(2) by (simp add: counts_range_def)
  then have "distinct (map kv_key (concat (map row_of es)))"
    using one
  proof (induction es)
    case (Cons e es)
    have "\<exists>x. row_of e = [x] \<and> kv_key x = fst e" by (rule Cons.prems(2)) simp
    then obtain x where x: "row_of e = [x]" "kv_key x = fst e" by blast
    have "kv_key y \<in> fst ` set es" if y: "e' \<in> set es" "y \<in> set (row_of e')" for e' y
    proof -
      have "\<exists>x. row_of e' = [x] \<and> kv_key x = fst e'" by (rule Cons.prems(2)) (simp add: y(1))
      with y show ?thesis by auto
    qed
    then have "kv_key ` set (concat (map row_of es)) \<subseteq> fst ` set es" by auto
    moreover have "kv_key x \<notin> fst ` set es" using Cons.prems(1) x(2) by simp
    ultimately have "kv_key x \<notin> set (map kv_key (concat (map row_of es)))" by auto
    moreover have "distinct (map kv_key (concat (map row_of es)))"
      using Cons.IH Cons.prems by simp
    ultimately show ?case using x(1) by simp
  qed simp
  then show "distinct (concat (map row_of es))" by (rule distinct_map [THEN iffD1, THEN conjunct1])
  show "set (concat (map row_of es)) =
      (\<lambda>(r, v). KV (alert_key r v) r v (of_nat (count_list as (r, v)))) ` set as"
  proof (rule set_eqI)
    fix x
    have "x \<in> set (concat (map row_of es)) \<longleftrightarrow> (\<exists>e. e \<in> set es \<and> x \<in> set (row_of e))" by auto
    also have "\<dots> \<longleftrightarrow> (\<exists>(r, v) \<in> set as. x \<in> set (row_of (alert_key r v, of_nat (count_list as (r, v)))))"
      by (auto simp: el)
    also have "\<dots> \<longleftrightarrow> (\<exists>(r, v) \<in> set as. x = KV (alert_key r v) r v (of_nat (count_list as (r, v))))"
    proof (rule bex_cong [OF refl])
      fix p assume p: "p \<in> set as"
      obtain r v where rv: "p = (r, v)" by force
      then have "CHR 0x00 \<notin> set r" using p assms(1) by (auto simp: rules_ok_def)
      then show "(case p of (r, v) \<Rightarrow> x \<in> set (row_of (alert_key r v, of_nat (count_list as (r, v))))) =
          (case p of (r, v) \<Rightarrow> x = KV (alert_key r v) r v (of_nat (count_list as (r, v))))"
        by (simp add: rv row_of_alert_key)
    qed
    finally show "x \<in> set (concat (map row_of es)) \<longleftrightarrow>
        x \<in> (\<lambda>(r, v). KV (alert_key r v) r v (of_nat (count_list as (r, v)))) ` set as" by auto
  qed
qed

text \<open>Three alerts, and two orders of the map they leave.\<close>

definition three_alerts :: "(string \<times> string) list" where
  "three_alerts = [(''memfd-create'', ''high''), (''bpf-prog-load'', ''critical''), (''memfd-create'', ''high'')]"

definition three_order :: "(string, u64) fmap \<Rightarrow> (string \<times> u64) list" where
  "three_order m = [(alert_key ''memfd-create'' ''high'', 2), (alert_key ''bpf-prog-load'' ''critical'', 1)]"

lemma three_order_range:
  "counts_range (three_order m) (s_alertCounts (record_all three_alerts New_Server))"
  "counts_range (rev (three_order m)) (s_alertCounts (record_all three_alerts New_Server))"
  by (auto simp: counts_range_def three_order_def three_alerts_def record_all_def RecordAlert_def
      Let_def New_Server_def alert_key_inject split: if_splits)

theorem scrape_counts_witness:
  "set (concat (map row_of (three_order (s_alertCounts (record_all three_alerts New_Server))))) =
     (\<lambda>(r, v). KV (alert_key r v) r v (of_nat (count_list three_alerts (r, v)))) ` set three_alerts"
  by (rule scrape_counts [THEN conjunct2])
    (simp add: rules_ok_def three_alerts_def, rule three_order_range)

text \<open>
  A scrape does not depend on the order in which \<open>sync.Map\<close> is visited: two scrapes of one state
  are the same text.
\<close>

theorem scrape_order:
  assumes "counts_range (rng (s_alertCounts s)) (s_alertCounts s)"
    "counts_range (rng' (s_alertCounts s)) (s_alertCounts s)"
  shows "ServeHTTP pr rng s = ServeHTTP pr rng' s"
proof -
  have "sort (concat (map row_of (rng (s_alertCounts s)))) =
      sort (concat (map row_of (rng' (s_alertCounts s))))"
    using mset_rows [OF counts_range_mset [OF assms]] by (metis sorted_list_of_multiset_mset)
  then show ?thesis by (simp only: ServeHTTP_def Let_def)
qed

theorem scrape_order_witness:
  "ServeHTTP (\<lambda>_. False) three_order (record_all three_alerts New_Server) =
   ServeHTTP (\<lambda>_. False) (\<lambda>m. rev (three_order m)) (record_all three_alerts New_Server)"
  by (rule scrape_order) (rule three_order_range)+

end
