(* ===== verification/Sarif.thy ===== *)
theory Sarif
  imports GoJson Types "HOL-Library.Multiset"
begin

text \<open>
  The SARIF report, \<open>internal/output/sarif.go\<close>. \<open>AddAlert\<close> registers the rule of the first alert
  with that rule and appends a result; \<open>Close\<close> renders the document. Go's iteration over
  \<open>w.rules\<close> is the argument \<open>rng\<close>. The hash of the fingerprint is the argument
  \<open>sha256\<close>: a function from the key to the bytes of the digest.
\<close>

record sarifRule =
  sr_ID :: string
  sr_ShortDescription :: string
  sr_SecuritySeverity :: string

record sarifResult =
  rs_RuleID :: string
  rs_Level :: string
  rs_Message :: string
  rs_URI :: string
  rs_StartLine :: nat
  rs_Fingerprint :: string
  rs_Pid :: u32
  rs_Comm :: string
  rs_RootComm :: string
  rs_Phase :: string
  rs_Severity :: string

record SARIFWriter =
  sw_path :: string
  sw_results :: "sarifResult list"
  sw_rules :: "(string, sarifRule) fmap"

definition NewSARIFWriter :: "string \<Rightarrow> SARIFWriter" where
  "NewSARIFWriter path = \<lparr>sw_path = path, sw_results = [], sw_rules = fmempty\<rparr>"

definition sarifLevel :: "Severity \<Rightarrow> string" where
  "sarifLevel s =
     (if s = SevCritical \<or> s = SevHigh then ''error''
      else if s = SevMedium then ''warning''
      else ''note'')"

definition cvssScore :: "Severity \<Rightarrow> string" where
  "cvssScore s =
     (if s = SevCritical then ''9.0''
      else if s = SevHigh then ''7.0''
      else if s = SevMedium then ''5.0''
      else if s = SevLow then ''3.0''
      else ''1.0'')"

definition artifactURI :: "ChainEvent \<Rightarrow> string" where
  "artifactURI evt = (let p = PathStr evt in if p \<noteq> [] then p else CommStr evt)"

definition fingerprint_key :: "Alert \<Rightarrow> string" where
  "fingerprint_key a =
     a_Rule a @ [CHR 0x00] @ RootCommStr (a_Event a) @ [CHR 0x00] @ artifactURI (a_Event a)"

definition alertFingerprint :: "(string \<Rightarrow> byte list) \<Rightarrow> Alert \<Rightarrow> string" where
  "alertFingerprint sha256 a = fmt_x_bytes (take 8 (sha256 (fingerprint_key a)))"

definition AddAlert :: "(string \<Rightarrow> byte list) \<Rightarrow> Alert \<Rightarrow> SARIFWriter \<Rightarrow> SARIFWriter" where
  "AddAlert sha256 a w =
     (let w = (if fmlookup (sw_rules w) (a_Rule a) = None then
                 w\<lparr>sw_rules := fmupd (a_Rule a)
                   \<lparr>sr_ID = a_Rule a, sr_ShortDescription = a_Rule a,
                    sr_SecuritySeverity = cvssScore (a_Severity a)\<rparr> (sw_rules w)\<rparr>
               else w)
      in w\<lparr>sw_results := sw_results w @
        [\<lparr>rs_RuleID = a_Rule a, rs_Level = sarifLevel (a_Severity a),
          rs_Message = a_Description a, rs_URI = artifactURI (a_Event a), rs_StartLine = 1,
          rs_Fingerprint = alertFingerprint sha256 a, rs_Pid = e_Pid (a_Event a),
          rs_Comm = CommStr (a_Event a), rs_RootComm = RootCommStr (a_Event a),
          rs_Phase = Phase_String (e_Phase (a_Event a)),
          rs_Severity = Severity_String (a_Severity a)\<rparr>]\<rparr>)"

section \<open>The document\<close>

definition message_json :: "string \<Rightarrow> json" where
  "message_json t = JObj [(''text'', JStr t)]"

definition rule_json :: "sarifRule \<Rightarrow> json" where
  "rule_json r =
     JObj [(''id'', JStr (sr_ID r)), (''shortDescription'', message_json (sr_ShortDescription r)),
           (''properties'', JObj [(''security-severity'', JStr (sr_SecuritySeverity r))])]"

text \<open>The maps of a result are marshalled with their keys sorted.\<close>

definition result_json :: "sarifResult \<Rightarrow> json" where
  "result_json r =
     JObj [(''ruleId'', JStr (rs_RuleID r)), (''level'', JStr (rs_Level r)),
           (''message'', message_json (rs_Message r)),
           (''locations'', JArr [JObj [(''physicalLocation'',
              JObj [(''artifactLocation'', JObj [(''uri'', JStr (rs_URI r))]),
                    (''region'', JObj [(''startLine'', JNum (rs_StartLine r))])])]]),
           (''partialFingerprints'',
              JObj [(''primaryLocationLineHash/v1'', JStr (rs_Fingerprint r))]),
           (''properties'',
              JObj [(''comm'', JStr (rs_Comm r)), (''phase'', JStr (rs_Phase r)),
                    (''pid'', JNum (unat (rs_Pid r))), (''root_comm'', JStr (rs_RootComm r)),
                    (''severity'', JStr (rs_Severity r))])]"

text \<open>\<open>w.results\<close> is a nil slice until the first alert, and marshals to \<open>null\<close>.\<close>

definition sarif_doc :: "sarifRule list \<Rightarrow> sarifResult list \<Rightarrow> json" where
  "sarif_doc rules results =
     JObj [(''$schema'', JStr ''https://raw.githubusercontent.com/oasis-tcs/sarif-spec/master/Schemata/sarif-schema-2.1.0.json''),
           (''version'', JStr ''2.1.0''),
           (''runs'', JArr [JObj [
              (''tool'', JObj [(''driver'',
                 JObj [(''name'', JStr ''chainscope''), (''version'', JStr ''0.1.0''),
                       (''informationUri'', JStr ''https://github.com/chainscope/chainscope''),
                       (''rules'', JArr (map rule_json rules))])]),
              (''results'', if results = [] then JNull else JArr (map result_json results))]])]"

text \<open>The text of the report: \<open>json.MarshalIndent\<close> of the document.\<close>

definition report_text :: "((string, sarifRule) fmap \<Rightarrow> (string \<times> sarifRule) list) \<Rightarrow> SARIFWriter \<Rightarrow> string" where
  "report_text rng w = render_indent 0 (sarif_doc (map snd (rng (sw_rules w))) (sw_results w))"

text \<open>\<open>write\<close> is \<open>os.WriteFile\<close>: the error it returns, if any; the result is what \<open>Close\<close> returns.\<close>

definition Close ::
  "(string \<Rightarrow> string \<Rightarrow> string option) \<Rightarrow>
   ((string, sarifRule) fmap \<Rightarrow> (string \<times> sarifRule) list) \<Rightarrow> SARIFWriter \<Rightarrow> string option" where
  "Close write rng w =
     (case write (sw_path w) (report_text rng w) of
        None \<Rightarrow> None
      | Some err \<Rightarrow> Some (''write SARIF '' @ sw_path w @ '': '' @ err))"

section \<open>Runs of \<open>AddAlert\<close>\<close>

definition add_alerts :: "(string \<Rightarrow> byte list) \<Rightarrow> Alert list \<Rightarrow> SARIFWriter \<Rightarrow> SARIFWriter" where
  "add_alerts sha256 as w = fold (AddAlert sha256) as w"

definition first_with_rule :: "string \<Rightarrow> Alert list \<Rightarrow> Alert option" where
  "first_with_rule r as = find (\<lambda>a. a_Rule a = r) as"

definition rule_of :: "Alert \<Rightarrow> sarifRule" where
  "rule_of a = \<lparr>sr_ID = a_Rule a, sr_ShortDescription = a_Rule a,
     sr_SecuritySeverity = cvssScore (a_Severity a)\<rparr>"

lemma lookup_AddAlert:
  "fmlookup (sw_rules (AddAlert sha256 a w)) r =
     (case fmlookup (sw_rules w) r of
        Some x \<Rightarrow> Some x
      | None \<Rightarrow> (if a_Rule a = r then Some (rule_of a) else None))"
  by (auto simp: AddAlert_def Let_def rule_of_def split: option.split)

lemma lookup_add_alerts:
  "fmlookup (sw_rules (add_alerts sha256 as w)) r =
     (case fmlookup (sw_rules w) r of
        Some x \<Rightarrow> Some x
      | None \<Rightarrow> map_option rule_of (first_with_rule r as))"
  unfolding add_alerts_def first_with_rule_def
  by (induction as arbitrary: w) (auto simp: lookup_AddAlert split: option.split)

lemma results_AddAlert:
  "\<exists>x. sw_results (AddAlert sha256 a w) = sw_results w @ [x] \<and> rs_RuleID x = a_Rule a \<and>
     rs_Message x = a_Description a \<and> rs_Level x = sarifLevel (a_Severity a) \<and>
     rs_Fingerprint x = alertFingerprint sha256 a"
  by (simp add: AddAlert_def Let_def)

lemma path_AddAlert [simp]: "sw_path (AddAlert sha256 a w) = sw_path w"
  by (simp add: AddAlert_def Let_def)

lemma results_add_alerts:
  "map (\<lambda>x. (rs_RuleID x, rs_Level x, rs_Message x)) (sw_results (add_alerts sha256 as w)) =
   map (\<lambda>x. (rs_RuleID x, rs_Level x, rs_Message x)) (sw_results w) @
   map (\<lambda>a. (a_Rule a, sarifLevel (a_Severity a), a_Description a)) as"
  unfolding add_alerts_def
proof (induction as arbitrary: w)
  case (Cons a as)
  with results_AddAlert [of sha256 a w] show ?case by auto
qed simp

section \<open>Properties of the report\<close>

text \<open>The result that \<open>AddAlert\<close> appends for an alert.\<close>

definition result_of :: "(string \<Rightarrow> byte list) \<Rightarrow> Alert \<Rightarrow> sarifResult" where
  "result_of sha256 a = hd (sw_results (AddAlert sha256 a (NewSARIFWriter [])))"

lemma results_AddAlert_eq: "sw_results (AddAlert sha256 a w) = sw_results w @ [result_of sha256 a]"
  by (simp add: result_of_def AddAlert_def Let_def NewSARIFWriter_def)

lemma results_all: "sw_results (add_alerts sha256 as w) = sw_results w @ map (result_of sha256) as"
  unfolding add_alerts_def
  by (induction as arbitrary: w) (simp_all add: results_AddAlert_eq)

lemma rs_RuleID_result_of [simp]: "rs_RuleID (result_of sha256 a) = a_Rule a"
  by (simp add: result_of_def AddAlert_def Let_def NewSARIFWriter_def)

text \<open>
  C34. The report is complete and consistent: its results are the alerts in the order they were added,
  with rule, level, message and fingerprint; and a rule is declared exactly if some result
  refers to it, under its own name.
\<close>

theorem report_results:
  "map (\<lambda>x. (rs_RuleID x, rs_Level x, rs_Message x, rs_Fingerprint x))
     (sw_results (add_alerts sha256 as (NewSARIFWriter path))) =
   map (\<lambda>a. (a_Rule a, sarifLevel (a_Severity a), a_Description a, alertFingerprint sha256 a)) as \<and>
   fset (fmdom (sw_rules (add_alerts sha256 as (NewSARIFWriter path)))) =
     rs_RuleID ` set (sw_results (add_alerts sha256 as (NewSARIFWriter path))) \<and>
   {r. \<exists>x. fmlookup (sw_rules (add_alerts sha256 as (NewSARIFWriter path))) r = Some x \<and> sr_ID x \<noteq> r} = {}"
proof (intro conjI)
  let ?w = "add_alerts sha256 as (NewSARIFWriter path)"
  have r: "fmlookup (sw_rules ?w) r = map_option rule_of (first_with_rule r as)" for r
    by (simp add: lookup_add_alerts NewSARIFWriter_def)
  have res: "sw_results ?w = map (result_of sha256) as"
    by (simp add: results_all NewSARIFWriter_def)
  show "map (\<lambda>x. (rs_RuleID x, rs_Level x, rs_Message x, rs_Fingerprint x)) (sw_results ?w) =
      map (\<lambda>a. (a_Rule a, sarifLevel (a_Severity a), a_Description a, alertFingerprint sha256 a)) as"
    unfolding res by (simp add: result_of_def AddAlert_def Let_def NewSARIFWriter_def)
  have "r \<in> fset (fmdom (sw_rules ?w)) \<longleftrightarrow> r \<in> a_Rule ` set as" for r
  proof -
    have "r \<in> fset (fmdom (sw_rules ?w)) \<longleftrightarrow> first_with_rule r as \<noteq> None"
      using r [of r] by (simp add: fmlookup_dom_iff)
    also have "\<dots> \<longleftrightarrow> r \<in> a_Rule ` set as"
      by (auto simp: first_with_rule_def find_None_iff)
    finally show ?thesis .
  qed
  then show "fset (fmdom (sw_rules ?w)) = rs_RuleID ` set (sw_results ?w)"
    by (auto simp: res image_image)
  show "{r. \<exists>x. fmlookup (sw_rules ?w) r = Some x \<and> sr_ID x \<noteq> r} = {}"
    by (auto simp: r first_with_rule_def rule_of_def find_Some_iff)
qed

text \<open>
  The score of a rule is that of its first alert: whatever is added after the first alert of a
  rule, the rule keeps the security severity of that alert. So for a rule whose alerts differ
  in severity the score understates a later, more severe one.
\<close>

theorem rule_score_first:
  assumes "a_Rule a \<notin> a_Rule ` set before"
  shows "\<exists>r. fmlookup (sw_rules (add_alerts sha256 (before @ a # later) (NewSARIFWriter path))) (a_Rule a) =
    Some r \<and> sr_SecuritySeverity r = cvssScore (a_Severity a)"
proof -
  have "first_with_rule (a_Rule a) (before @ a # later) = Some a"
    using assms unfolding first_with_rule_def
    by (induction before) auto
  then show ?thesis by (simp add: lookup_add_alerts NewSARIFWriter_def rule_of_def)
qed

theorem rule_score_first_witness:
  "\<exists>r. fmlookup (sw_rules (add_alerts (\<lambda>_. [])
      [mk_alert zero_event ''unknown-network'' SevMedium ''a'', mk_alert zero_event ''unknown-network'' SevHigh ''b'']
      (NewSARIFWriter ''out.sarif''))) ''unknown-network'' = Some r \<and> sr_SecuritySeverity r = ''5.0''"
  using rule_score_first [of "mk_alert zero_event ''unknown-network'' SevMedium ''a''" "[]" "\<lambda>_. []"
      "[mk_alert zero_event ''unknown-network'' SevHigh ''b'']" "''out.sarif''"]
  by (simp add: cvssScore_def)

end
