(* ===== verification/Monitor.thy ===== *)
theory Monitor
  imports Wire Detector Dedup Baseline Output Metrics Sarif
begin

text \<open>
  The event loop of \<open>main\<close> in \<open>cmd/chainscope/main.go\<close> (monitor, learn and enforce mode). The
  state is what the loop's variables point to; \<open>st_out\<close> lists what the writer printed. One
  iteration also takes what the code reads from its surroundings: \<open>/proc\<close>, the clock of the
  deduplicator and the clock readings the writer formats (one per line it prints).
\<close>

record StepEnv =
  v_fs :: FileSystem
  v_now :: int
  v_stamp :: "nat \<Rightarrow> string"

text \<open>
  What is fixed after start-up. \<open>c_pr\<close> and \<open>c_sha256\<close> are the table of printable characters
  and the hash function of the libraries.
\<close>

record Config =
  c_policy :: "Policy option"
  c_enforcer :: "Enforcer option"
  c_writer :: Writer
  c_verbose :: bool
  c_pr :: "nat \<Rightarrow> bool"
  c_sha256 :: "string \<Rightarrow> byte list"

record State =
  st_tree :: Tree
  st_dedup :: Deduplicator
  st_learner :: "Learner option"
  st_sarif :: "SARIFWriter option"
  st_met :: "Server option"
  st_out :: "string list"

definition dedupTTL :: int where
  "dedupTTL = 5 * 10 ^ 9"

definition start_state ::
  "Learner option \<Rightarrow> SARIFWriter option \<Rightarrow> Server option \<Rightarrow> State" where
  "start_state learner sarif met =
     \<lparr>st_tree = New, st_dedup = NewDeduplicator dedupTTL, st_learner = learner,
      st_sarif = sarif, st_met = met, st_out = []\<rparr>"

section \<open>One iteration\<close>

definition record_event :: "'a State_scheme \<Rightarrow> 'a State_scheme" where
  "record_event st = st\<lparr>st_met := map_option RecordEvent (st_met st)\<rparr>"

definition track_exec :: "StepEnv \<Rightarrow> ChainEvent \<Rightarrow> 'a State_scheme \<Rightarrow> 'a State_scheme" where
  "track_exec env evt st =
     (if e_EventType evt = EvtExec then
        (let t = Add (v_fs env) evt (st_tree st)
         in st\<lparr>st_tree := t, st_met := map_option (SetProcTreeSize (Size t)) (st_met st)\<rparr>)
      else st)"

definition learn_event :: "ChainEvent \<Rightarrow> 'a State_scheme \<Rightarrow> 'a State_scheme" where
  "learn_event evt st = st\<lparr>st_learner := map_option (Learn evt) (st_learner st)\<rparr>"

definition detect ::
  "Config \<Rightarrow> StepEnv \<Rightarrow> ChainEvent \<Rightarrow> 'a State_scheme \<Rightarrow> Deduplicator \<times> Alert list" where
  "detect cfg env evt st =
     Filter (v_now env)
       (Check (c_pr cfg) \<lparr>d_tree = st_tree st, d_policy = c_policy cfg\<rparr> evt) (st_dedup st)"

definition enforce :: "Config \<Rightarrow> ChainEvent \<Rightarrow> Alert list" where
  "enforce cfg evt =
     (case c_enforcer cfg of
        None \<Rightarrow> []
      | Some e \<Rightarrow> (case Enforcer_Check e evt of None \<Rightarrow> [] | Some a \<Rightarrow> [a]))"

definition enrich_alerts :: "Tree \<Rightarrow> ChainEvent \<Rightarrow> Alert list \<Rightarrow> Alert list" where
  "enrich_alerts t evt alerts =
     (case Get t (e_Pid evt) of
        None \<Rightarrow> alerts
      | Some node \<Rightarrow>
          (if n_ContainerID node \<noteq> [] then
             map (\<lambda>a. a\<lparr>a_ContainerID := n_ContainerID node, a_Runtime := n_Runtime node,
                       a_PodName := n_PodName node, a_Namespace := n_Namespace node\<rparr>) alerts
           else alerts))"

text \<open>The body of \<open>for _, a := range alerts\<close>; \<open>i\<close> counts the lines printed in this iteration.\<close>

definition emit_alert :: "Config \<Rightarrow> string \<Rightarrow> Alert \<Rightarrow> 'a State_scheme \<Rightarrow> 'a State_scheme" where
  "emit_alert cfg ts a st =
     st\<lparr>st_out := st_out st @ [WriteAlert (c_writer cfg) ts a],
        st_sarif := map_option (AddAlert (c_sha256 cfg) a) (st_sarif st),
        st_met := map_option (RecordAlert (a_Rule a) (Severity_String (a_Severity a))) (st_met st)\<rparr>"

fun emit_alerts ::
  "Config \<Rightarrow> StepEnv \<Rightarrow> nat \<Rightarrow> Alert list \<Rightarrow> 'a State_scheme \<Rightarrow> 'a State_scheme" where
  "emit_alerts cfg env i [] st = st"
| "emit_alerts cfg env i (a # as) st =
     emit_alerts cfg env (Suc i) as (emit_alert cfg (v_stamp env i) a st)"

definition write_event ::
  "Config \<Rightarrow> string \<Rightarrow> ChainEvent \<Rightarrow> 'a State_scheme \<Rightarrow> 'a State_scheme" where
  "write_event cfg ts evt st = st\<lparr>st_out := st_out st @ [WriteEvent (c_writer cfg) ts evt]\<rparr>"

text \<open>The alerts of one iteration and the state they are emitted from.\<close>

definition step_alerts ::
  "Config \<Rightarrow> StepEnv \<Rightarrow> ChainEvent \<Rightarrow> State \<Rightarrow> State \<times> Alert list" where
  "step_alerts cfg env evt st =
     (let st = learn_event evt (track_exec env evt (record_event st));
          (dd, alerts) = detect cfg env evt st;
          st = st\<lparr>st_dedup := dd\<rparr>;
          alerts = alerts @ enforce cfg evt
      in (st, enrich_alerts (st_tree st) evt alerts))"

definition monitor_step :: "Config \<Rightarrow> StepEnv \<Rightarrow> ChainEvent \<Rightarrow> State \<Rightarrow> State" where
  "monitor_step cfg env evt st =
     (let (st, alerts) = step_alerts cfg env evt st;
          st = emit_alerts cfg env 0 alerts st
      in if c_verbose cfg \<and> alerts = [] then write_event cfg (v_stamp env 0) evt st else st)"

text \<open>
  The loop: a read error is logged and the loop goes on, a closed ring buffer ends it. The list
  is the sequence of results the reader delivers before it is closed.
\<close>

fun monitor_loop :: "Config \<Rightarrow> (ring_result \<times> StepEnv) list \<Rightarrow> State \<Rightarrow> State" where
  "monitor_loop cfg [] st = st"
| "monitor_loop cfg ((res, env) # reads) st =
     (case ReadEvent res of
        Inl err \<Rightarrow> monitor_loop cfg reads st
      | Inr None \<Rightarrow> st
      | Inr (Some evt) \<Rightarrow> monitor_loop cfg reads (monitor_step cfg env evt st))"

section \<open>What a run has done\<close>

text \<open>
  The observed run: for each event that was handled, the surroundings, the event and the alerts
  it raised. The loop's state is a function of it.
\<close>

fun trace ::
  "Config \<Rightarrow> (ring_result \<times> StepEnv) list \<Rightarrow> State \<Rightarrow> (StepEnv \<times> ChainEvent \<times> Alert list) list" where
  "trace cfg [] st = []"
| "trace cfg ((res, env) # reads) st =
     (case ReadEvent res of
        Inl err \<Rightarrow> trace cfg reads st
      | Inr None \<Rightarrow> []
      | Inr (Some evt) \<Rightarrow>
          (env, evt, snd (step_alerts cfg env evt st)) #
          trace cfg reads (monitor_step cfg env evt st))"

definition trace_alerts :: "(StepEnv \<times> ChainEvent \<times> Alert list) list \<Rightarrow> Alert list" where
  "trace_alerts tr = concat (map (\<lambda>(env, evt, as). as) tr)"

definition trace_execs :: "(StepEnv \<times> ChainEvent \<times> Alert list) list \<Rightarrow> (FileSystem \<times> ChainEvent) list" where
  "trace_execs tr = map (\<lambda>(env, evt, as). (v_fs env, evt))
     (filter (\<lambda>(env, evt, as). e_EventType evt = EvtExec) tr)"

definition trace_lines :: "Config \<Rightarrow> (StepEnv \<times> ChainEvent \<times> Alert list) list \<Rightarrow> string list" where
  "trace_lines cfg tr = concat (map (\<lambda>(env, evt, as).
     if as \<noteq> [] then map (\<lambda>(i, a). WriteAlert (c_writer cfg) (v_stamp env i) a) (enumerate 0 as)
     else if c_verbose cfg then [WriteEvent (c_writer cfg) (v_stamp env 0) evt] else []) tr)"

lemma trace_simps [simp]:
  "trace_alerts [] = []" "trace_execs [] = []" "trace_lines cfg [] = []"
  "trace_alerts ((env, evt, as) # tr) = as @ trace_alerts tr"
  "trace_execs ((env, evt, as) # tr) =
     (if e_EventType evt = EvtExec then [(v_fs env, evt)] else []) @ trace_execs tr"
  "trace_lines cfg ((env, evt, as) # tr) =
     (if as \<noteq> [] then map (\<lambda>(i, a). WriteAlert (c_writer cfg) (v_stamp env i) a) (enumerate 0 as)
      else if c_verbose cfg then [WriteEvent (c_writer cfg) (v_stamp env 0) evt] else []) @
     trace_lines cfg tr"
  by (simp_all add: trace_alerts_def trace_execs_def trace_lines_def)

lemma monitor_loop_induct [case_names nil error closed event]:
  assumes "\<And>st. P [] st"
    and "\<And>res env reads st err. ReadEvent res = Inl err \<Longrightarrow> P reads st \<Longrightarrow> P ((res, env) # reads) st"
    and "\<And>res env reads st. ReadEvent res = Inr None \<Longrightarrow> P ((res, env) # reads) st"
    and "\<And>res env reads st evt. ReadEvent res = Inr (Some evt) \<Longrightarrow>
      P reads (monitor_step cfg env evt st) \<Longrightarrow> P ((res, env) # reads) st"
  shows "P reads st"
proof (induction reads arbitrary: st)
  case (Cons r reads)
  obtain res env where r: "r = (res, env)" by force
  show ?case
    by (cases "ReadEvent res"; cases "projr (ReadEvent res)")
      (auto simp: r intro: assms Cons)
qed (rule assms)

section \<open>The fields after one iteration\<close>

lemma emit_alerts_fields [simp]:
  "st_tree (emit_alerts cfg env i as st) = st_tree st"
  "st_dedup (emit_alerts cfg env i as st) = st_dedup st"
  "st_learner (emit_alerts cfg env i as st) = st_learner st"
  by (induction as arbitrary: i st) (auto simp: emit_alert_def)

lemma emit_alerts_out:
  "st_out (emit_alerts cfg env i as st) =
     st_out st @ map (\<lambda>(i, a). WriteAlert (c_writer cfg) (v_stamp env i) a) (enumerate i as)"
  by (induction as arbitrary: i st) (auto simp: emit_alert_def)

lemma add_alerts_fun:
  "add_alerts sha256 [] = id" "add_alerts sha256 (a # as) = add_alerts sha256 as \<circ> AddAlert sha256 a"
  by (auto simp: add_alerts_def)

lemma record_all_fun:
  "record_all [] = id" "record_all ((r, v) # as) = record_all as \<circ> RecordAlert r v"
  by (auto simp: record_all_def)

lemma emit_alerts_sarif:
  "st_sarif (emit_alerts cfg env i as st) = map_option (add_alerts (c_sha256 cfg) as) (st_sarif st)"
  by (induction as arbitrary: i st) (simp_all add: emit_alert_def add_alerts_fun option.map_comp option.map_id)

definition alert_pairs :: "Alert list \<Rightarrow> (string \<times> string) list" where
  "alert_pairs as = map (\<lambda>a. (a_Rule a, Severity_String (a_Severity a))) as"

lemma emit_alerts_met:
  "st_met (emit_alerts cfg env i as st) = map_option (record_all (alert_pairs as)) (st_met st)"
  by (induction as arbitrary: i st)
    (simp_all add: emit_alert_def alert_pairs_def record_all_fun option.map_comp option.map_id)

lemma step_alerts_state:
  "step_alerts cfg env evt st = (st', as) \<Longrightarrow>
   st_tree st' = st_tree (track_exec env evt st) \<and>
   st_dedup st' = fst (detect cfg env evt (track_exec env evt st)) \<and>
   st_sarif st' = st_sarif st \<and> st_out st' = st_out st \<and>
   st_learner st' = map_option (Learn evt) (st_learner st) \<and>
   st_met st' = st_met (track_exec env evt (record_event st)) \<and>
   as = enrich_alerts (st_tree st') evt (snd (detect cfg env evt (track_exec env evt st)) @ enforce cfg evt)"
  by (auto simp: step_alerts_def Let_def track_exec_def record_event_def learn_event_def detect_def
      split: prod.splits)

lemma monitor_step_fields:
  assumes "step_alerts cfg env evt st = (st', as)"
  shows "st_tree (monitor_step cfg env evt st) = st_tree st'"
    and "st_dedup (monitor_step cfg env evt st) = st_dedup st'"
    and "st_sarif (monitor_step cfg env evt st) = map_option (add_alerts (c_sha256 cfg) as) (st_sarif st)"
    and "st_met (monitor_step cfg env evt st) = map_option (record_all (alert_pairs as)) (st_met st')"
    and "st_out (monitor_step cfg env evt st) = st_out st @ trace_lines cfg [(env, evt, as)]"
proof -
  note st' = step_alerts_state [OF assms]
  have m: "monitor_step cfg env evt st =
      (let st = emit_alerts cfg env 0 as st'
       in if c_verbose cfg \<and> as = [] then write_event cfg (v_stamp env 0) evt st else st)"
    by (simp add: monitor_step_def assms)
  show "st_tree (monitor_step cfg env evt st) = st_tree st'"
    "st_dedup (monitor_step cfg env evt st) = st_dedup st'"
    by (simp_all add: m Let_def write_event_def)
  show "st_sarif (monitor_step cfg env evt st) = map_option (add_alerts (c_sha256 cfg) as) (st_sarif st)"
    using st' by (simp add: m Let_def write_event_def emit_alerts_sarif add_alerts_fun option.map_id)
  show "st_met (monitor_step cfg env evt st) = map_option (record_all (alert_pairs as)) (st_met st')"
    by (simp add: m Let_def write_event_def emit_alerts_met alert_pairs_def record_all_fun
        option.map_id)
  show "st_out (monitor_step cfg env evt st) = st_out st @ trace_lines cfg [(env, evt, as)]"
    using st' by (simp add: m Let_def write_event_def emit_alerts_out)
qed

lemma step_alerts_pair: "\<exists>st' as. step_alerts cfg env evt st = (st', as)"
  by force

lemma monitor_loop_simps:
  "ReadEvent res = Inl err \<Longrightarrow> monitor_loop cfg ((res, env) # reads) st = monitor_loop cfg reads st"
  "ReadEvent res = Inr None \<Longrightarrow> monitor_loop cfg ((res, env) # reads) st = st"
  "ReadEvent res = Inr (Some evt) \<Longrightarrow>
     monitor_loop cfg ((res, env) # reads) st = monitor_loop cfg reads (monitor_step cfg env evt st)"
  "ReadEvent res = Inl err \<Longrightarrow> trace cfg ((res, env) # reads) st = trace cfg reads st"
  "ReadEvent res = Inr None \<Longrightarrow> trace cfg ((res, env) # reads) st = []"
  "ReadEvent res = Inr (Some evt) \<Longrightarrow>
     trace cfg ((res, env) # reads) st =
       (env, evt, snd (step_alerts cfg env evt st)) # trace cfg reads (monitor_step cfg env evt st)"
  by simp_all

declare monitor_loop.simps(2) [simp del] trace.simps(2) [simp del]

section \<open>The state after a run\<close>

lemma track_exec_tree:
  "st_tree (track_exec env evt st) =
     (if e_EventType evt = EvtExec then observe (v_fs env, evt) (st_tree st) else st_tree st)"
  by (simp add: track_exec_def observe_def Let_def)

lemma loop_tree:
  "st_tree (monitor_loop cfg reads st) = fold observe (trace_execs (trace cfg reads st)) (st_tree st)"
proof (induction rule: monitor_loop_induct [where cfg = cfg])
  case (event res env reads st evt)
  obtain st' as where s: "step_alerts cfg env evt st = (st', as)" using step_alerts_pair by blast
  have "st_tree (monitor_step cfg env evt st) = st_tree (track_exec env evt st)"
    using monitor_step_fields(1) [OF s] step_alerts_state [OF s] by simp
  with event show ?case by (simp add: monitor_loop_simps track_exec_tree)
qed (simp_all add: monitor_loop_simps)

lemma loop_out: "st_out (monitor_loop cfg reads st) = st_out st @ trace_lines cfg (trace cfg reads st)"
proof (induction rule: monitor_loop_induct [where cfg = cfg])
  case (event res env reads st evt)
  obtain st' as where s: "step_alerts cfg env evt st = (st', as)" using step_alerts_pair by blast
  from event monitor_step_fields(5) [OF s] show ?case by (simp add: monitor_loop_simps s)
qed (simp_all add: monitor_loop_simps)

lemma add_alerts_append: "add_alerts sha256 (as @ bs) = add_alerts sha256 bs \<circ> add_alerts sha256 as"
  by (auto simp: add_alerts_def)

lemma loop_sarif:
  "st_sarif (monitor_loop cfg reads st) =
     map_option (add_alerts (c_sha256 cfg) (trace_alerts (trace cfg reads st))) (st_sarif st)"
proof (induction rule: monitor_loop_induct [where cfg = cfg])
  case (event res env reads st evt)
  obtain st' as where s: "step_alerts cfg env evt st = (st', as)" using step_alerts_pair by blast
  from event monitor_step_fields(3) [OF s] show ?case
    by (simp add: monitor_loop_simps s option.map_comp add_alerts_append comp_def)
qed (simp_all add: monitor_loop_simps add_alerts_fun option.map_id option.map_ident)

lemma loop_learner:
  "st_learner (monitor_loop cfg reads st) =
     map_option (fold Learn (map (\<lambda>(env, evt, as). evt) (trace cfg reads st))) (st_learner st)"
proof (induction rule: monitor_loop_induct [where cfg = cfg])
  case (event res env reads st evt)
  obtain st' as where s: "step_alerts cfg env evt st = (st', as)" using step_alerts_pair by blast
  have "st_learner (monitor_step cfg env evt st) = map_option (Learn evt) (st_learner st)"
    using step_alerts_state [OF s]
    by (simp add: monitor_step_def s Let_def write_event_def)
  with event show ?case by (simp add: monitor_loop_simps option.map_comp comp_def)
qed (simp_all add: monitor_loop_simps option.map_ident)

lemma record_all_event [simp]:
  "s_eventCount (record_all as s) = s_eventCount s" "s_procCount (record_all as s) = s_procCount s"
  by (induction as arbitrary: s) (auto simp: record_all_def RecordAlert_def Let_def)

lemma record_all_counts:
  "s_alertCounts r = s_alertCounts r' \<Longrightarrow> s_alertCounts (record_all ys r) = s_alertCounts (record_all ys r')"
proof (induction ys arbitrary: r r')
  case Nil
  then show ?case by (simp add: record_all_fun)
next
  case (Cons y ys)
  obtain rule sev where y: "y = (rule, sev)" by force
  have "s_alertCounts (RecordAlert rule sev r) = s_alertCounts (RecordAlert rule sev r')"
    by (simp add: RecordAlert_def Let_def Cons.prems)
  from Cons.IH [OF this] show ?case by (simp add: y record_all_fun)
qed

lemma alert_pairs_append: "alert_pairs (as @ bs) = alert_pairs as @ alert_pairs bs"
  by (simp add: alert_pairs_def)

definition met_after ::
  "Config \<Rightarrow> (ring_result \<times> StepEnv) list \<Rightarrow> State \<Rightarrow> Server \<Rightarrow> Server \<Rightarrow> bool" where
  "met_after cfg reads st s s' \<longleftrightarrow>
     s_eventCount s' = s_eventCount s + of_nat (length (trace cfg reads st)) \<and>
     s_alertCounts s' = s_alertCounts (record_all (alert_pairs (trace_alerts (trace cfg reads st))) s) \<and>
     s_procCount s' = (if trace_execs (trace cfg reads st) = [] then s_procCount s
       else of_nat (Size (st_tree (monitor_loop cfg reads st))))"

lemma loop_met:
  "\<forall>s. st_met st = Some s \<longrightarrow> (\<exists>s'. st_met (monitor_loop cfg reads st) = Some s' \<and> met_after cfg reads st s s')"
proof (induction rule: monitor_loop_induct [where cfg = cfg])
  case (event res env reads st evt)
  show ?case
  proof (intro allI impI)
    fix s assume prem: "st_met st = Some s"
    obtain st' as where st': "step_alerts cfg env evt st = (st', as)" using step_alerts_pair by blast
    have f: "st_tree st' = st_tree (track_exec env evt st)"
      "st_met st' = st_met (track_exec env evt (record_event st))"
      "st_tree (monitor_step cfg env evt st) = st_tree st'"
      using step_alerts_state [OF st'] monitor_step_fields(1) [OF st'] by auto
    define s1 where "s1 = (if e_EventType evt = EvtExec
      then SetProcTreeSize (Size (st_tree st')) (RecordEvent s) else RecordEvent s)"
    have s1: "s_eventCount s1 = s_eventCount s + 1" "s_alertCounts s1 = s_alertCounts s"
      "s_procCount s1 = (if e_EventType evt = EvtExec then of_nat (Size (st_tree st')) else s_procCount s)"
      by (simp_all add: s1_def RecordEvent_def SetProcTreeSize_def)
    have m: "st_met (monitor_step cfg env evt st) = Some (record_all (alert_pairs as) s1)"
    proof -
      have "st_met st' = Some s1"
        using f prem
        by (cases "e_EventType evt = EvtExec")
          (auto simp: s1_def track_exec_def record_event_def Let_def)
      then show ?thesis by (simp add: monitor_step_fields(4) [OF st'])
    qed
    have ac: "s_alertCounts (record_all xs (record_all (alert_pairs as) s1)) =
        s_alertCounts (record_all (alert_pairs as @ xs) s)" for xs
    proof -
      have "s_alertCounts (record_all (alert_pairs as @ xs) s1) =
          s_alertCounts (record_all (alert_pairs as @ xs) s)"
        by (rule record_all_counts) (rule s1)
      then show ?thesis by (simp add: record_all_def)
    qed
    from event.IH m obtain s' where s':
      "st_met (monitor_loop cfg reads (monitor_step cfg env evt st)) = Some s'"
      "met_after cfg reads (monitor_step cfg env evt st) (record_all (alert_pairs as) s1) s'" by blast
    have tr: "st_tree (monitor_loop cfg reads (monitor_step cfg env evt st)) = st_tree st'"
      if "trace_execs (trace cfg reads (monitor_step cfg env evt st)) = []"
      using that f by (simp add: loop_tree)
    show "\<exists>s'. st_met (monitor_loop cfg ((res, env) # reads) st) = Some s' \<and>
        met_after cfg ((res, env) # reads) st s s'"
    proof (intro exI conjI)
      show "st_met (monitor_loop cfg ((res, env) # reads) st) = Some s'"
        using s'(1) event.hyps by (simp add: monitor_loop_simps)
      show "met_after cfg ((res, env) # reads) st s s'"
        using s'(2) tr event.hyps
        by (auto simp: met_after_def monitor_loop_simps st' ac alert_pairs_append s1)
    qed
  qed
next
  case (error res env reads st err)
  have "met_after cfg ((res, env) # reads) st = met_after cfg reads st"
    by (intro ext) (simp only: met_after_def monitor_loop_simps(1,4) [OF error.hyps])
  with error show ?case by (simp add: monitor_loop_simps)
qed (simp_all add: met_after_def monitor_loop_simps alert_pairs_def record_all_fun)

lemma loop_met_None: "st_met st = None \<longrightarrow> st_met (monitor_loop cfg reads st) = None"
proof (induction rule: monitor_loop_induct [where cfg = cfg and
      P = "\<lambda>reads st. st_met st = None \<longrightarrow> st_met (monitor_loop cfg reads st) = None"])
  case (event res env reads st evt)
  obtain st' as where s: "step_alerts cfg env evt st = (st', as)" using step_alerts_pair by blast
  have "st_met st' = st_met (track_exec env evt (record_event st))"
    using step_alerts_state [OF s] by blast
  then have "st_met st = None \<Longrightarrow> st_met st' = None"
    by (simp add: track_exec_def record_event_def Let_def)
  with event monitor_step_fields(4) [OF s] show ?case by (simp add: monitor_loop_simps)
qed (simp_all add: monitor_loop_simps)

section \<open>Deduplication over a run\<close>

lemma Check_not_baseline: "list_all (\<lambda>a. a_Rule a \<noteq> ''baseline-deviation'') (Check pr d e)"
  by (rule Check_split) (auto simp: check_defs Let_def split: prod.split option.split)

definition from_detector :: "Alert \<Rightarrow> bool" where
  "from_detector a \<longleftrightarrow> a_Rule a \<noteq> ''baseline-deviation''"

text \<open>What \<open>enrich_alerts\<close> does to one alert.\<close>

definition enriched :: "Tree \<Rightarrow> ChainEvent \<Rightarrow> Alert \<Rightarrow> Alert" where
  "enriched t evt a = hd (enrich_alerts t evt [a])"

lemma enrich_alerts_map: "enrich_alerts t evt as = map (enriched t evt) as"
  by (auto simp: enriched_def enrich_alerts_def intro!: map_idI [symmetric] split: option.split)

lemma enriched_keeps [simp]:
  "a_Rule (enriched t evt a) = a_Rule a" "a_Event (enriched t evt a) = a_Event a"
  "a_Severity (enriched t evt a) = a_Severity a"
  "a_Description (enriched t evt a) = a_Description a"
  by (auto simp: enriched_def enrich_alerts_def split: option.split)

text \<open>The alerts that went through the deduplicator, with the clock reading of their call.\<close>

definition dedup_log :: "(StepEnv \<times> ChainEvent \<times> Alert list) list \<Rightarrow> (int \<times> Alert) list" where
  "dedup_log tr = concat (map (\<lambda>(env, evt, as). map (Pair (v_now env)) (filter from_detector as)) tr)"

lemma enforce_not_detector: "filter from_detector (enforce cfg evt) = []"
  by (auto simp: enforce_def from_detector_def Enforcer_Check_def Let_def split: option.split)

text \<open>The alerts of an iteration: the filtered batch of the detector, then a deviation, enriched.\<close>

lemma step_detect:
  assumes "step_alerts cfg env evt st = (st', as)"
  obtains out where
    "Filter (v_now env) (Check (c_pr cfg) \<lparr>d_tree = st_tree st', d_policy = c_policy cfg\<rparr> evt)
       (st_dedup st) = (st_dedup st', out)"
    "as = enrich_alerts (st_tree st') evt (out @ enforce cfg evt)"
proof -
  note f = step_alerts_state [OF assms]
  have "st_dedup (track_exec env evt st) = st_dedup st" by (simp add: track_exec_def Let_def)
  then have d: "detect cfg env evt (track_exec env evt st) =
      Filter (v_now env) (Check (c_pr cfg) \<lparr>d_tree = st_tree st', d_policy = c_policy cfg\<rparr> evt) (st_dedup st)"
    by (simp add: detect_def f)
  show thesis
  proof (rule that)
    show "Filter (v_now env) (Check (c_pr cfg) \<lparr>d_tree = st_tree st', d_policy = c_policy cfg\<rparr> evt)
        (st_dedup st) = (st_dedup st', snd (detect cfg env evt (track_exec env evt st)))"
      using f by (simp add: d)
    show "as = enrich_alerts (st_tree st') evt
        (snd (detect cfg env evt (track_exec env evt st)) @ enforce cfg evt)"
      using f by blast
  qed
qed

lemma step_dedup:
  assumes "step_alerts cfg env evt st = (st', as)"
  shows "\<exists>out. Filter (v_now env) (Check (c_pr cfg) \<lparr>d_tree = st_tree st', d_policy = c_policy cfg\<rparr> evt)
      (st_dedup st) = (st_dedup st', out) \<and>
    map dedup_key (filter from_detector as) = map dedup_key out"
proof -
  let ?as = "Check (c_pr cfg) \<lparr>d_tree = st_tree st', d_policy = c_policy cfg\<rparr> evt"
  obtain out where fl: "Filter (v_now env) ?as (st_dedup st) = (st_dedup st', out)"
    "as = enrich_alerts (st_tree st') evt (out @ enforce cfg evt)" using step_detect [OF assms] .
  have "set out \<subseteq> set ?as" using Filter_incl [OF fl(1)] .
  then have out: "filter from_detector out = out"
    using Check_not_baseline [of "c_pr cfg" "\<lparr>d_tree = st_tree st', d_policy = c_policy cfg\<rparr>" evt]
    by (auto simp: filter_id_conv from_detector_def list_all_iff)
  have fg: "filter from_detector (map (enriched t evt) xs) =
      map (enriched t evt) (filter from_detector xs)" for t xs
    by (induction xs) (auto simp: from_detector_def)
  have "map dedup_key (filter from_detector as) = map dedup_key out"
    unfolding fl(2) enrich_alerts_map fg
    by (simp add: out enforce_not_detector dedup_key_def)
  with fl(1) show ?thesis by blast
qed

lemma dedup_log_simps [simp]:
  "dedup_log [] = []"
  "dedup_log ((env, evt, as) # tr) = map (Pair (v_now env)) (filter from_detector as) @ dedup_log tr"
  by (simp_all add: dedup_log_def)

text \<open>
  The log is, key for key, a run of the deduplicator on the detector's batches: the calls have the
  clock of the iterations and what \<open>Check\<close> says of their events.
\<close>

definition checked :: "Config \<Rightarrow> StepEnv \<times> ChainEvent \<times> Alert list \<Rightarrow> int \<times> Alert list \<Rightarrow> bool" where
  "checked cfg step call \<longleftrightarrow>
     (case (step, call) of ((env, evt, as), (now, batch)) \<Rightarrow>
        now = v_now env \<and> (\<exists>t. batch = Check (c_pr cfg) \<lparr>d_tree = t, d_policy = c_policy cfg\<rparr> evt))"

lemma loop_dedup:
  "dedup_ok dedupTTL (st_dedup st) \<longrightarrow> dedup_ok dedupTTL (st_dedup (monitor_loop cfg reads st)) \<and>
   (\<exists>calls. list_all2 (checked cfg) (trace cfg reads st) calls \<and>
      map (apsnd dedup_key) (dedup_log (trace cfg reads st)) =
        map (apsnd dedup_key) (limit_run Filter (st_dedup st) calls))"
proof (induction rule: monitor_loop_induct [where cfg = cfg])
  case (event res env reads st evt)
  show ?case
  proof
    assume ok: "dedup_ok dedupTTL (st_dedup st)"
    obtain st' as where s: "step_alerts cfg env evt st = (st', as)" using step_alerts_pair by blast
    let ?as = "Check (c_pr cfg) \<lparr>d_tree = st_tree st', d_policy = c_policy cfg\<rparr> evt"
    from step_dedup [OF s] obtain out where out:
      "Filter (v_now env) ?as (st_dedup st) = (st_dedup st', out)"
      "map dedup_key (filter from_detector as) = map dedup_key out" by blast
    have d: "st_dedup (monitor_step cfg env evt st) = st_dedup st'" by (rule monitor_step_fields(2) [OF s])
    have "dedup_ok dedupTTL (st_dedup st')" using Filter_spec(1) [OF ok out(1)] .
    with event.IH [unfolded d] obtain calls where c:
      "dedup_ok dedupTTL (st_dedup (monitor_loop cfg reads (monitor_step cfg env evt st)))"
      "list_all2 (checked cfg) (trace cfg reads (monitor_step cfg env evt st)) calls"
      "map (apsnd dedup_key) (dedup_log (trace cfg reads (monitor_step cfg env evt st))) =
        map (apsnd dedup_key) (limit_run Filter (st_dedup st') calls)" by blast
    have "map (apsnd dedup_key) (map (Pair (v_now env)) (filter from_detector as)) =
        map (apsnd dedup_key) (map (Pair (v_now env)) out)"
      using arg_cong [OF out(2), of "map (Pair (v_now env))"] by (simp add: comp_def)
    then show "dedup_ok dedupTTL (st_dedup (monitor_loop cfg ((res, env) # reads) st)) \<and>
      (\<exists>calls. list_all2 (checked cfg) (trace cfg ((res, env) # reads) st) calls \<and>
        map (apsnd dedup_key) (dedup_log (trace cfg ((res, env) # reads) st)) =
          map (apsnd dedup_key) (limit_run Filter (st_dedup st) calls))"
      using c event.hyps out(1)
      by (intro conjI exI [of _ "(v_now env, ?as) # calls"])
        (simp_all add: monitor_loop_simps s, auto simp: checked_def)
  qed
qed (auto simp: monitor_loop_simps)

lemma checked_times: "list_all2 (checked cfg) tr calls \<Longrightarrow> map fst calls = map (\<lambda>(env, evt, as). v_now env) tr"
  by (induction rule: list_all2_induct) (auto simp: checked_def)

lemma dedupTTL_ok: "0 < dedupTTL" "dedupTTL \<le> max_duration"
  by (simp_all add: dedupTTL_def max_duration_def)

lemma spaced_keys:
  "map (apsnd key) em = map (apsnd key) em' \<Longrightarrow> spaced key ttl em \<longleftrightarrow> spaced key ttl em'"
proof -
  have "spaced key ttl xs \<longleftrightarrow>
      sorted_wrt (\<lambda>(t, k) (t', k'). k = k' \<longrightarrow> ttl \<le> t' - t) (map (apsnd key) xs)" for xs
    by (simp add: spaced_def sorted_wrt_map case_prod_unfold)
  then show "map (apsnd key) em = map (apsnd key) em' \<Longrightarrow> spaced key ttl em \<longleftrightarrow> spaced key ttl em'"
    by simp
qed

text \<open>The events a run handles are those the reader delivers before it is closed.\<close>

fun handled :: "(ring_result \<times> StepEnv) list \<Rightarrow> (StepEnv \<times> ChainEvent) list" where
  "handled [] = []"
| "handled ((res, env) # reads) =
     (case ReadEvent res of
        Inl err \<Rightarrow> handled reads
      | Inr None \<Rightarrow> []
      | Inr (Some evt) \<Rightarrow> (env, evt) # handled reads)"

lemma trace_handled: "map (\<lambda>(env, evt, as). (env, evt)) (trace cfg reads st) = handled reads"
  by (induction rule: monitor_loop_induct [where cfg = cfg and
        P = "\<lambda>reads st. map (\<lambda>(env, evt, as). (env, evt)) (trace cfg reads st) = handled reads"])
    (simp_all add: monitor_loop_simps)

lemma trace_times: "map (\<lambda>(env, evt, as). v_now env) (trace cfg reads st) = map (v_now \<circ> fst) (handled reads)"
  unfolding trace_handled [of cfg reads st, symmetric] by (simp add: case_prod_unfold)

lemma handled_reads: "(env, evt) \<in> set (handled reads) \<Longrightarrow> \<exists>res. (res, env) \<in> set reads"
proof (induction reads rule: handled.induct)
  case (2 res env' reads)
  then show ?case by (fastforce split: sum.splits option.splits)
qed simp

lemma handled_sorted: "sorted (map (v_now \<circ> snd) reads) \<Longrightarrow> sorted (map (v_now \<circ> fst) (handled reads))"
proof (induction reads rule: handled.induct)
  case (2 res env reads)
  have "\<forall>x \<in> set (handled reads). v_now env \<le> v_now (fst x)"
    using "2.prems" handled_reads [of _ _ reads] by fastforce
  with 2 show ?case by (auto split: sum.splits option.splits)
qed simp

text \<open>
  A run from the start: its log is one of the deduplicator, with the calls in order of time when
  the clock does not go backwards.
\<close>

lemma run_log:
  assumes "sorted (map (v_now \<circ> snd) reads)"
  obtains calls where "sorted (map fst calls)"
    "list_all2 (checked cfg) (trace cfg reads (start_state learner sarif met)) calls"
    "map (apsnd dedup_key) (dedup_log (trace cfg reads (start_state learner sarif met))) =
      map (apsnd dedup_key) (limit_run Filter (NewDeduplicator dedupTTL) calls)"
proof -
  let ?s = "start_state learner sarif met"
  have d: "st_dedup ?s = NewDeduplicator dedupTTL" by (simp add: start_state_def)
  then have "dedup_ok dedupTTL (st_dedup ?s)" using dedupTTL_ok by (simp add: dedup_ok_New)
  with loop_dedup [of ?s cfg reads] obtain calls where c: "list_all2 (checked cfg) (trace cfg reads ?s) calls"
    "map (apsnd dedup_key) (dedup_log (trace cfg reads ?s)) =
      map (apsnd dedup_key) (limit_run Filter (st_dedup ?s) calls)" by blast
  moreover have "sorted (map fst calls)"
    using handled_sorted [OF assms] by (simp only: checked_times [OF c(1)] trace_times)
  ultimately show thesis using that d by simp
qed

text \<open>Rule names hold no NUL, so the key of the deduplicator determines rule and root.\<close>

lemma step_rules:
  assumes "step_alerts cfg env evt st = (st', as)"
  shows "list_all (\<lambda>a. CHR 0x00 \<notin> set (a_Rule a)) as"
proof -
  obtain out where fl:
    "Filter (v_now env) (Check (c_pr cfg) \<lparr>d_tree = st_tree st', d_policy = c_policy cfg\<rparr> evt) (st_dedup st) = (st_dedup st', out)"
    "as = enrich_alerts (st_tree st') evt (out @ enforce cfg evt)" using step_detect [OF assms] .
  have "\<forall>a \<in> set out. CHR 0x00 \<notin> set (a_Rule a)"
    using Filter_incl [OF fl(1)] Check_well_formed [of "\<lparr>d_tree = st_tree st', d_policy = c_policy cfg\<rparr>" evt "c_pr cfg"]
    by (auto simp: list_all_iff well_formed_alert_def)
  moreover have "\<forall>a \<in> set (enforce cfg evt). CHR 0x00 \<notin> set (a_Rule a)"
    by (auto simp: enforce_def Enforcer_Check_def Let_def split: option.split)
  ultimately show ?thesis by (auto simp: fl(2) enrich_alerts_map list_all_iff)
qed

lemma trace_rules:
  "list_all (\<lambda>(env, evt, as). list_all (\<lambda>a. CHR 0x00 \<notin> set (a_Rule a)) as) (trace cfg reads st)"
proof (induction rule: monitor_loop_induct [where cfg = cfg and
      P = "\<lambda>reads st. list_all (\<lambda>(env, evt, as). list_all (\<lambda>a. CHR 0x00 \<notin> set (a_Rule a)) as) (trace cfg reads st)"])
  case (event res env reads st evt)
  obtain st' as where s: "step_alerts cfg env evt st = (st', as)" using step_alerts_pair by blast
  with event step_rules [OF s] show ?case by (simp add: monitor_loop_simps)
qed (simp_all add: monitor_loop_simps)

text \<open>What the rule table says of a handled event is in the log, from less than the TTL before.\<close>

lemma log_covers:
  assumes "sorted (map (v_now \<circ> snd) reads)" "(env, evt) \<in> set (handled reads)"
    and "(rule, sev) \<in> set (fired (rule_table (c_policy cfg) evt))"
  shows "\<exists>t b. (t, b) \<in> set (dedup_log (trace cfg reads (start_state learner sarif met))) \<and>
    a_Rule b = rule \<and> e_RootPid (a_Event b) = e_RootPid evt \<and> t \<le> v_now env \<and> v_now env - t < dedupTTL"
proof -
  let ?tr = "trace cfg reads (start_state learner sarif met)"
  obtain calls where calls: "sorted (map fst calls)" "list_all2 (checked cfg) ?tr calls"
    and log: "map (apsnd dedup_key) (dedup_log ?tr) =
      map (apsnd dedup_key) (limit_run Filter (NewDeduplicator dedupTTL) calls)"
    using run_log [OF assms(1)] by blast
  have "(env, evt) \<in> set (map (\<lambda>(env, evt, as). (env, evt)) ?tr)"
    using assms(2) by (simp add: trace_handled)
  then obtain as where "(env, evt, as) \<in> set ?tr" by auto
  then obtain i where i: "i < length ?tr" "?tr ! i = (env, evt, as)" by (auto simp: in_set_conv_nth)
  obtain now batch where ci: "calls ! i = (now, batch)" by force
  have call: "(now, batch) \<in> set calls" "checked cfg (env, evt, as) (now, batch)"
    using list_all2_lengthD [OF calls(2)] list_all2_nthD [OF calls(2) i(1)] i ci by (auto simp: in_set_conv_nth)
  then obtain t where batch: "now = v_now env" "batch = Check (c_pr cfg) \<lparr>d_tree = t, d_policy = c_policy cfg\<rparr> evt"
    by (auto simp: checked_def)
  have "(rule, sev) \<in> set (verdicts batch)" using assms(3) by (simp add: batch(2) verdicts_Check)
  then obtain a where a: "a \<in> set batch" "a_Rule a = rule" by (auto simp: verdicts_def)
  then have wf: "a_Event a = evt" "CHR 0x00 \<notin> set (a_Rule a)"
    using Check_well_formed [of "\<lparr>d_tree = t, d_policy = c_policy cfg\<rparr>" evt "c_pr cfg"]
    by (auto simp: batch(2) list_all_iff well_formed_alert_def)
  obtain t0 b0 where b0: "(t0, b0) \<in> set (limit_run Filter (NewDeduplicator dedupTTL) calls)"
      "dedup_key b0 = dedup_key a" "t0 \<le> now" "now - t0 < dedupTTL"
    using dedup.run_covered [OF dedupTTL_ok(1) dedup_ok_New [OF dedupTTL_ok] calls(1) start_nothing_seen _ call(1) a(1)]
    by auto
  then have "(t0, dedup_key a) \<in> apsnd dedup_key ` set (dedup_log ?tr)"
    using arg_cong [OF log, of set] by force
  then obtain b where b: "(t0, b) \<in> set (dedup_log ?tr)" "dedup_key b = dedup_key a" by auto
  from b(1) obtain env' evt' as' where "(env', evt', as') \<in> set ?tr" "b \<in> set as'"
    by (auto simp: dedup_log_def)
  then have "CHR 0x00 \<notin> set (a_Rule b)"
    using trace_rules [of cfg reads "start_state learner sarif met"] by (fastforce simp: list_all_iff)
  with b wf a(2) have "a_Rule b = rule \<and> e_RootPid (a_Event b) = e_RootPid evt"
    by (simp add: dedup_key_inject)
  with b(1) b0(3,4) batch(1) show ?thesis by blast
qed

section \<open>Properties of the event loop\<close>

text \<open>
  C6. The three outputs of a run agree. The lines written, the SARIF report and the metrics are all
  those of one list of alerts, in order: each alert is written once with its own clock reading,
  is one result of the report and adds one to its counter; the event counter is the number of
  events decoded. With the verbose flag an event without alerts is written as an event line.
\<close>

theorem outputs_agree:
  "let tr = trace cfg reads (start_state learner sarif met);
       st = monitor_loop cfg reads (start_state learner sarif met)
   in st_out st = trace_lines cfg tr \<and>
      st_sarif st = map_option (add_alerts (c_sha256 cfg) (trace_alerts tr)) sarif \<and>
      (case (met, st_met st) of
         (Some s, Some s') \<Rightarrow>
           s_eventCount s' = s_eventCount s + of_nat (length tr) \<and>
           s_alertCounts s' = s_alertCounts (record_all (alert_pairs (trace_alerts tr)) s)
       | (None, None) \<Rightarrow> True
       | _ \<Rightarrow> False)"
proof -
  let ?s = "start_state learner sarif met"
  show ?thesis
    using loop_out [of cfg reads ?s] loop_sarif [of cfg reads ?s] loop_met [of ?s cfg reads] loop_met_None [of ?s cfg reads]
    by (cases met) (auto simp: start_state_def met_after_def Let_def)
qed


text \<open>
  C7. Over a whole run whose clock does not go backwards, two alerts of the detector with one rule and
  one root process are at least five seconds apart, whatever happens in between; baseline
  deviations are not limited.
\<close>

theorem run_spaced_alerts:
  assumes "sorted (map (v_now \<circ> snd) reads)"
  shows "spaced dedup_key dedupTTL (dedup_log (trace cfg reads (start_state learner sarif met)))"
proof -
  obtain calls where c: "sorted (map fst calls)"
    "map (apsnd dedup_key) (dedup_log (trace cfg reads (start_state learner sarif met))) =
      map (apsnd dedup_key) (limit_run Filter (NewDeduplicator dedupTTL) calls)"
    using run_log [OF assms, of cfg learner sarif met] by blast
  have "spaced dedup_key dedupTTL (limit_run Filter (NewDeduplicator dedupTTL) calls)"
    using c(1) by (intro dedup.run_spaced dedup_ok_New dedupTTL_ok)
  then show ?thesis using spaced_keys [OF c(2)] by blast
qed

text \<open>A BPF program load by a process whose name holds a line feed.\<close>

definition forged_event :: ChainEvent where
  "forged_event = zero_event\<lparr>e_EventType := EvtBpfLoad, e_Comm := c_array 16 (''x'' @ line_feed @ ''y'')\<rparr>"

definition at_time :: "int \<Rightarrow> StepEnv" where
  "at_time t = \<lparr>v_fs = no_files, v_now = t, v_stamp = (\<lambda>i. ''00:00:00.000'')\<rparr>"

definition plain_config :: Config where
  "plain_config = \<lparr>c_policy = None, c_enforcer = None, c_writer = \<lparr>w_json = False\<rparr>,
     c_verbose = False, c_pr = (\<lambda>_. False), c_sha256 = (\<lambda>_. [])\<rparr>"

definition two_loads :: "(ring_result \<times> StepEnv) list" where
  "two_loads = [(RingRecord (encode_event forged_event), at_time 0), (RingFailed ''poll'', at_time 1),
     (RingRecord (encode_event forged_event), at_time 2)]"

theorem run_spaced_alerts_witness:
  "spaced dedup_key dedupTTL (dedup_log (trace plain_config two_loads (start_state None None None)))"
  by (rule run_spaced_alerts) (simp add: two_loads_def at_time_def)

text \<open>
  C8. Learning and enforcing over runs: if a run learned a profile and a run with that profile as its
  baseline handles the same reads, under any policy, process state and clock, no baseline
  deviation is among its alerts.
\<close>

theorem learn_then_enforce:
  assumes "st_learner (monitor_loop cfg reads (start_state (Some (NewLearner created)) sarif met)) = Some l"
    and "c_enforcer cfg' = Some \<lparr>en_profile = l_profile l\<rparr>"
  shows "list_all from_detector (trace_alerts (trace cfg' reads (start_state learner' sarif' met')))"
proof -
  let ?s = "start_state (Some (NewLearner created)) sarif met"
  have ev: "map (\<lambda>(env, evt, as). evt) (trace c reads s) = map snd (handled reads)" for c s
    unfolding trace_handled [of c reads s, symmetric] by (simp add: case_prod_unfold)
  have l: "l = fold Learn (map snd (handled reads)) (NewLearner created)"
    using assms(1) loop_learner [of cfg reads ?s] by (simp only: ev) (simp add: start_state_def)
  have en: "enforce cfg' evt = []" if "evt \<in> set (map snd (handled reads))" for evt
    using baseline.learned_allowed [OF that, of "NewLearner created"]
    by (simp add: enforce_def assms(2) l within_baseline_def)
  have "\<forall>s. set (map snd (handled rs)) \<subseteq> set (map snd (handled reads)) \<longrightarrow>
      list_all from_detector (trace_alerts (trace cfg' rs s))" for rs
  proof (induction rs rule: handled.induct)
    case (2 res env rs)
    show ?case
    proof (cases "ReadEvent res")
      case (Inr r)
      show ?thesis
      proof (cases r)
        case (Some evt)
        have "list_all from_detector (snd (step_alerts cfg' env evt s))" if "enforce cfg' evt = []" for s
        proof -
          obtain st' as where st': "step_alerts cfg' env evt s = (st', as)" using step_alerts_pair by blast
          obtain out where fl: "Filter (v_now env) (Check (c_pr cfg') \<lparr>d_tree = st_tree st',
              d_policy = c_policy cfg'\<rparr> evt) (st_dedup s) = (st_dedup st', out)"
            "as = enrich_alerts (st_tree st') evt (out @ enforce cfg' evt)"
            using step_detect [OF st'] .
          have "list_all from_detector out"
            using Filter_incl [OF fl(1)] Check_not_baseline [of "c_pr cfg'"
                "\<lparr>d_tree = st_tree st', d_policy = c_policy cfg'\<rparr>" evt]
            by (auto simp: list_all_iff from_detector_def)
          then show ?thesis
            by (simp add: st' fl(2) that enrich_alerts_map list_all_iff from_detector_def)
        qed
        with 2 Inr Some en show ?thesis by (auto simp: monitor_loop_simps)
      qed (simp add: monitor_loop_simps Inr)
    qed (use 2 in \<open>simp add: monitor_loop_simps\<close>)
  qed simp
  then show ?thesis by blast
qed

definition hosts_event :: ChainEvent where
  "hosts_event = open_evt EvtFileOpen ''make'' ''/etc/hosts''"

definition one_read :: "(ring_result \<times> StepEnv) list" where
  "one_read = [(RingRecord (encode_event hosts_event), at_time 0)]"

definition hosts_baseline :: Config where
  "hosts_baseline =
     plain_config\<lparr>c_enforcer := Some \<lparr>en_profile = l_profile (Learn hosts_event (NewLearner ''t''))\<rparr>\<rparr>"

theorem learn_then_enforce_witness:
  "list_all from_detector (trace_alerts (trace hosts_baseline one_read (start_state None None None)))"
proof (rule learn_then_enforce)
  have "wf_event hosts_event" by (simp add: hosts_event_def open_evt_def wf_event_def zero_event_def)
  then have "ReadEvent (RingRecord (encode_event hosts_event)) = Inr (Some hosts_event)"
    by (simp add: ReadEvent_event binary_Read_event)
  then have "map (\<lambda>(env, evt, as). evt) (trace plain_config one_read s) = [hosts_event]" for s
    by (simp add: one_read_def monitor_loop_simps)
  then show "st_learner (monitor_loop plain_config one_read
      (start_state (Some (NewLearner ''t'')) None None)) = Some (Learn hosts_event (NewLearner ''t''))"
    by (simp add: loop_learner) (simp add: start_state_def)
  show "c_enforcer hosts_baseline =
      Some \<lparr>en_profile = l_profile (Learn hosts_event (NewLearner ''t''))\<rparr>"
    by (simp add: hosts_baseline_def)
qed

text \<open>
  Text output is not escaped: one alert about such a process takes two lines, the second one under
  the control of the process.
\<close>

lemma text_output_forged:
  "wf_event forged_event \<and>
   map (\<lambda>a. count_list (writeAlertText ''t'' a) (CHR 0x0A))
     (Check pr \<lparr>d_tree = New, d_policy = None\<rparr> forged_event) = [2]"
proof -
  have c: "CommStr forged_event = ''x'' @ line_feed @ ''y''" by code_simp
  have f: "FormatChain New p = []" for p by (simp add: FormatChain_def Chain_untracked)
  have p: "e_Phase forged_event = 0" "e_EventType forged_event = EvtBpfLoad"
    by (simp_all add: forged_event_def zero_event_def)
  show ?thesis
    by (simp add: Check_def p checkBpfLoad_def Let_def c f writeAlertText_def mk_alert_def
        severityColor_def colorRed_def colorReset_def ESC_def Severity_String_def Phase_String_def
        em_dash_def line_feed_def)
      (simp add: forged_event_def wf_event_def zero_event_def)
qed

end
