(* ===== verification/GoFlag.thy ===== *)
theory GoFlag
  imports GoStrings
begin

text \<open>
  The Go package \<open>flag\<close>: \<open>FlagSet.Parse\<close> for boolean and string flags. The outcome lists the
  assignments in the order they are made (the last one for a name counts) and the arguments
  that are left, or says that parsing stopped on \<open>-help\<close> or an error. With
  \<open>flag.ExitOnError\<close> the process then exits with status 0 or 2.
\<close>

datatype flag_kind = BoolFlag | StringFlag

datatype flag_outcome =
    FlagsOK "(string \<times> string) list" "string list"
  | FlagHelp
  | FlagError

definition ParseBool :: "string \<Rightarrow> bool option" where
  "ParseBool v =
     (if v \<in> {''1'', ''t'', ''T'', ''TRUE'', ''true'', ''True''} then Some True
      else if v \<in> {''0'', ''f'', ''F'', ''FALSE'', ''false'', ''False''} then Some False
      else None)"

definition minus :: char where
  "minus = CHR ''-''"

definition equals :: char where
  "equals = CHR ''=''"

text \<open>The name of a flag and the value after \<open>=\<close>, looked for from the second byte on.\<close>

definition flag_split :: "string \<Rightarrow> string \<times> string option" where
  "flag_split body =
     (hd body # takeWhile (\<lambda>c. c \<noteq> equals) (tl body),
      if equals \<in> set (tl body) then Some (tl (dropWhile (\<lambda>c. c \<noteq> equals) (tl body))) else None)"

definition flag_body :: "string \<Rightarrow> string" where
  "flag_body s = (if s ! 1 = minus then drop 2 s else drop 1 s)"

fun parse_flags ::
  "(string \<Rightarrow> flag_kind option) \<Rightarrow> (string \<times> string) list \<Rightarrow> string list \<Rightarrow> flag_outcome" where
  "parse_flags fs acc [] = FlagsOK acc []"
| "parse_flags fs acc (s # args) =
     (if length s < 2 \<or> hd s \<noteq> minus then FlagsOK acc (s # args)
      else if s = [minus, minus] then FlagsOK acc args
      else if hd (flag_body s) = minus \<or> hd (flag_body s) = equals then FlagError
      else case flag_split (flag_body s) of (name, val) \<Rightarrow>
        (case fs name of
           None \<Rightarrow> (if name = ''help'' \<or> name = ''h'' then FlagHelp else FlagError)
         | Some BoolFlag \<Rightarrow>
             (case val of
                Some v \<Rightarrow>
                  (if ParseBool v = None then FlagError
                   else parse_flags fs (acc @ [(name, v)]) args)
              | None \<Rightarrow> parse_flags fs (acc @ [(name, ''true'')]) args)
         | Some StringFlag \<Rightarrow>
             (case val of
                Some v \<Rightarrow> parse_flags fs (acc @ [(name, v)]) args
              | None \<Rightarrow>
                  (case args of
                     [] \<Rightarrow> FlagError
                   | v # args' \<Rightarrow> parse_flags fs (acc @ [(name, v)]) args'))))"

definition flag_get :: "(string \<times> string) list \<Rightarrow> string \<Rightarrow> string \<Rightarrow> string" where
  "flag_get acc name dflt =
     (case find (\<lambda>p. fst p = name) (rev acc) of None \<Rightarrow> dflt | Some p \<Rightarrow> snd p)"

definition flag_bool :: "(string \<times> string) list \<Rightarrow> string \<Rightarrow> bool" where
  "flag_bool acc name = (ParseBool (flag_get acc name ''false'') = Some True)"

end
