(* ===== verification/Ci.thy ===== *)
theory Ci
  imports Monitor GoFlag
begin

text \<open>
  The subcommand \<open>chainscope ci\<close>, \<open>runCI\<close> of \<open>cmd/chainscope/main.go\<close>: the split of the
  arguments at the first \<open>--\<close>, the flags, the start-up steps with their early returns, the event
  loop with the count of alerts at or above the threshold, and the exit status. What the
  surroundings answer (user id, policy file, eBPF loader, the monitored command) is in the
  record \<open>CiEnv\<close>. Status messages on standard error are not modelled.
\<close>

definition parseSeverity :: "string \<Rightarrow> Severity" where
  "parseSeverity s =
     (if s = ''low'' then SevLow
      else if s = ''medium'' then SevMedium
      else if s = ''critical'' then SevCritical
      else SevHigh)"

record CiState = State +
  st_alertCount :: u64

section \<open>The event loop\<close>

text \<open>The body of the loop over the alerts, with the counter.\<close>

definition ci_emit_alert ::
  "Config \<Rightarrow> Severity \<Rightarrow> string \<Rightarrow> Alert \<Rightarrow> CiState \<Rightarrow> CiState" where
  "ci_emit_alert cfg threshold ts a st =
     (let st = emit_alert cfg ts a st in
      if a_Severity a \<ge> threshold then st\<lparr>st_alertCount := st_alertCount st + 1\<rparr> else st)"

fun ci_emit_alerts ::
  "Config \<Rightarrow> Severity \<Rightarrow> StepEnv \<Rightarrow> nat \<Rightarrow> Alert list \<Rightarrow> CiState \<Rightarrow> CiState" where
  "ci_emit_alerts cfg threshold env i [] st = st"
| "ci_emit_alerts cfg threshold env i (a # as) st =
     ci_emit_alerts cfg threshold env (Suc i) as
       (ci_emit_alert cfg threshold (v_stamp env i) a st)"

definition ci_step_alerts ::
  "Config \<Rightarrow> StepEnv \<Rightarrow> ChainEvent \<Rightarrow> CiState \<Rightarrow> CiState \<times> Alert list" where
  "ci_step_alerts cfg env evt st =
     (let st = track_exec env evt (record_event st);
          (dd, alerts) = detect cfg env evt st;
          st = st\<lparr>st_dedup := dd\<rparr>
      in (st, enrich_alerts (st_tree st) evt alerts))"

definition ci_step :: "Config \<Rightarrow> Severity \<Rightarrow> StepEnv \<Rightarrow> ChainEvent \<Rightarrow> CiState \<Rightarrow> CiState" where
  "ci_step cfg threshold env evt st =
     (let (st, alerts) = ci_step_alerts cfg env evt st;
          st = ci_emit_alerts cfg threshold env 0 alerts st
      in if c_verbose cfg then write_event cfg (v_stamp env (length alerts)) evt st else st)"

fun ci_loop ::
  "Config \<Rightarrow> Severity \<Rightarrow> (ring_result \<times> StepEnv) list \<Rightarrow> CiState \<Rightarrow> CiState" where
  "ci_loop cfg threshold [] st = st"
| "ci_loop cfg threshold ((res, env) # reads) st =
     (case ReadEvent res of
        Inl err \<Rightarrow> ci_loop cfg threshold reads st
      | Inr None \<Rightarrow> st
      | Inr (Some evt) \<Rightarrow> ci_loop cfg threshold reads (ci_step cfg threshold env evt st))"

section \<open>Start-up and exit status\<close>

text \<open>The result of \<open>cmd.Wait()\<close>: success, an \<open>ExitError\<close> with its code, another error.\<close>

datatype wait_result = WaitOK | WaitExit int | WaitOther

definition wait_code :: "wait_result \<Rightarrow> int" where
  "wait_code w = (case w of WaitOK \<Rightarrow> 0 | WaitExit code \<Rightarrow> code | WaitOther \<Rightarrow> 0)"

record CiEnv =
  x_euid :: int
  x_fs :: FileSystem
  x_unmarshal :: "string \<Rightarrow> string + policyFile"
  x_range :: "policyFile \<Rightarrow> (string \<times> Registry) list"
  x_loader_ok :: bool
  x_start_ok :: bool
  x_reads :: "(ring_result \<times> StepEnv) list"
  x_wait :: wait_result
  x_pr :: "nat \<Rightarrow> bool"
  x_sha256 :: "string \<Rightarrow> byte list"
  x_pid :: u32
  x_rules :: "(string, sarifRule) fmap \<Rightarrow> (string \<times> sarifRule) list"

text \<open>The index of the first \<open>--\<close>; the code's \<open>-1\<close> is \<open>None\<close>.\<close>

fun find_sep :: "nat \<Rightarrow> string list \<Rightarrow> nat option" where
  "find_sep i [] = None"
| "find_sep i (a # args) = (if a = ''--'' then Some i else find_sep (Suc i) args)"

definition ci_flags :: "string \<Rightarrow> flag_kind option" where
  "ci_flags name =
     (if name = ''json'' \<or> name = ''v'' then Some BoolFlag
      else if name \<in> {''policy'', ''min-sev'', ''sarif'', ''metrics-addr''} then Some StringFlag
      else None)"

definition ci_start :: "(string \<times> string) list \<Rightarrow> CiState" where
  "ci_start flags =
     \<lparr>st_tree = New, st_dedup = NewDeduplicator dedupTTL, st_learner = None,
      st_sarif = (let p = flag_get flags ''sarif'' [] in
                  if p \<noteq> [] then Some (NewSARIFWriter p) else None),
      st_met = (if flag_get flags ''metrics-addr'' [] \<noteq> [] then Some New_Server else None),
      st_out = [], st_alertCount = 0\<rparr>"

definition ci_config :: "CiEnv \<Rightarrow> (string \<times> string) list \<Rightarrow> Policy option \<Rightarrow> Config" where
  "ci_config env flags pol =
     \<lparr>c_policy = pol, c_enforcer = None, c_writer = \<lparr>w_json = flag_bool flags ''json''\<rparr>,
      c_verbose = flag_bool flags ''v'', c_pr = x_pr env, c_sha256 = x_sha256 env\<rparr>"

text \<open>The policy: none without the flag; a file that does not load ends the run.\<close>

definition ci_policy :: "CiEnv \<Rightarrow> (string \<times> string) list \<Rightarrow> policy_error + Policy option" where
  "ci_policy env flags =
     (let p = flag_get flags ''policy'' [] in
      if p \<noteq> [] then
        (case Load (x_fs env) (x_unmarshal env) (x_range env) p of
           Inl err \<Rightarrow> Inl err
         | Inr pol \<Rightarrow> Inr (Some pol))
      else Inr None)"

text \<open>The exit status from the final state, and the whole run.\<close>

definition ci_exit :: "u64 \<Rightarrow> wait_result \<Rightarrow> int" where
  "ci_exit n w =
     (let cmdExit = wait_code w in
      if sint n > 0 then 1
      else if cmdExit \<noteq> 0 then cmdExit
      else 0)"

text \<open>
  What a run does to the outside: the exit status, the entry it asks the kernel to track (\<open>SeedPID\<close>;
  an error is only reported) and the file \<open>Close\<close> writes (an error is only reported).
\<close>

record CiOutcome =
  oc_exit :: int
  oc_seed :: "(u32 \<times> ProcInfo) option"
  oc_report :: "(string \<times> string) option"

definition early :: "int \<Rightarrow> CiOutcome" where
  "early code = \<lparr>oc_exit = code, oc_seed = None, oc_report = None\<rparr>"

definition runCI :: "CiEnv \<Rightarrow> string list \<Rightarrow> CiOutcome" where
  "runCI env args =
     (case find_sep 0 args of
        None \<Rightarrow> early 1
      | Some sep \<Rightarrow>
          if sep = length args - 1 then early 1
          else case parse_flags ci_flags [] (take sep args) of
            FlagHelp \<Rightarrow> early 0
          | FlagError \<Rightarrow> early 2
          | FlagsOK flags rest \<Rightarrow>
              let cmdArgs = drop (sep + 1) args in
              if x_euid env \<noteq> 0 then early 1
              else case ci_policy env flags of
                Inl err \<Rightarrow> early 1
              | Inr pol \<Rightarrow>
                  if \<not> x_loader_ok env then early 1
                  else if \<not> x_start_ok env then early 1
                  else
                    (let st = ci_loop (ci_config env flags pol)
                           (parseSeverity (flag_get flags ''min-sev'' ''high''))
                           (x_reads env) (ci_start flags)
                     in \<lparr>oc_exit = ci_exit (st_alertCount st) (x_wait env),
                         oc_seed = Some (x_pid env, seed_info (x_pid env) (Base (hd cmdArgs))),
                         oc_report = map_option (\<lambda>w. (sw_path w, report_text (x_rules env) w))
                           (st_sarif st)\<rparr>))"

section \<open>What a run counts\<close>

text \<open>The alerts of a run, in order.\<close>

fun ci_alerts ::
  "Config \<Rightarrow> Severity \<Rightarrow> (ring_result \<times> StepEnv) list \<Rightarrow> CiState \<Rightarrow> Alert list" where
  "ci_alerts cfg threshold [] st = []"
| "ci_alerts cfg threshold ((res, env) # reads) st =
     (case ReadEvent res of
        Inl err \<Rightarrow> ci_alerts cfg threshold reads st
      | Inr None \<Rightarrow> []
      | Inr (Some evt) \<Rightarrow>
          snd (ci_step_alerts cfg env evt st) @
          ci_alerts cfg threshold reads (ci_step cfg threshold env evt st))"

definition at_least :: "Severity \<Rightarrow> Alert list \<Rightarrow> nat" where
  "at_least threshold as = length (filter (\<lambda>a. threshold \<le> a_Severity a) as)"

lemma at_least_append [simp]: "at_least t (as @ bs) = at_least t as + at_least t bs"
  by (simp add: at_least_def)

lemma emit_alert_more [simp]: "st_alertCount (emit_alert cfg ts a st) = st_alertCount st"
  by (simp add: emit_alert_def)

lemma ci_emit_count:
  "st_alertCount (ci_emit_alerts cfg t env i as st) = st_alertCount st + of_nat (at_least t as)"
  by (induction as arbitrary: i st) (simp_all add: ci_emit_alert_def at_least_def Let_def)

lemma ci_step_alerts_count:
  "ci_step_alerts cfg env evt st = (st', as) \<Longrightarrow> st_alertCount st' = st_alertCount st"
  by (auto simp: ci_step_alerts_def track_exec_def record_event_def Let_def split: prod.splits)

lemma ci_step_count:
  "st_alertCount (ci_step cfg t env evt st) =
     st_alertCount st + of_nat (at_least t (snd (ci_step_alerts cfg env evt st)))"
proof -
  obtain st' as where s: "ci_step_alerts cfg env evt st = (st', as)" by force
  then show ?thesis
    using ci_step_alerts_count [OF s]
    by (simp add: ci_step_def write_event_def Let_def ci_emit_count)
qed

lemma ci_loop_count:
  "st_alertCount (ci_loop cfg t reads st) =
     st_alertCount st + of_nat (at_least t (ci_alerts cfg t reads st))"
  by (induction cfg t reads st rule: ci_loop.induct)
    (auto simp: ci_step_count at_least_def [of _ "[]"] split: sum.split option.split)

lemma sint_of_nat_pos: "n < 2 ^ 63 \<Longrightarrow> sint (of_nat n :: u64) > 0 \<longleftrightarrow> n > 0"
proof -
  assume n: "n < 2 ^ 63"
  have "sint (of_nat n :: u64) = int n"
    using n by (simp add: sint_uint uint_nat unsigned_of_nat take_bit_nat_eq_self signed_take_bit_int_eq_self)
  then show ?thesis by simp
qed

lemma ci_emit_sarif:
  "st_sarif (ci_emit_alerts cfg t env i as st) = map_option (add_alerts (c_sha256 cfg) as) (st_sarif st)"
  by (induction as arbitrary: i st)
    (simp_all add: ci_emit_alert_def Let_def emit_alert_def add_alerts_fun option.map_comp option.map_id)

lemma ci_step_sarif:
  "st_sarif (ci_step cfg t env evt st) =
     map_option (add_alerts (c_sha256 cfg) (snd (ci_step_alerts cfg env evt st))) (st_sarif st)"
proof -
  obtain st' as where s: "ci_step_alerts cfg env evt st = (st', as)" by force
  then have "st_sarif st' = st_sarif st"
    by (auto simp: ci_step_alerts_def track_exec_def record_event_def Let_def split: prod.splits)
  with s show ?thesis
    by (simp add: ci_step_def write_event_def Let_def ci_emit_sarif)
qed

lemma ci_loop_sarif:
  "st_sarif (ci_loop cfg t reads st) =
     map_option (add_alerts (c_sha256 cfg) (ci_alerts cfg t reads st)) (st_sarif st)"
  by (induction cfg t reads st rule: ci_loop.induct)
    (auto simp: ci_step_sarif option.map_comp add_alerts_append add_alerts_fun option.map_id
      comp_def option.map_ident split: sum.split option.split)

section \<open>Properties of the subcommand\<close>

lemma find_sep_split: "''--'' \<notin> set as \<Longrightarrow> find_sep i (as @ ''--'' # bs) = Some (i + length as)"
  by (induction as arbitrary: i) auto

lemma find_sep_None: "find_sep i as = None \<longleftrightarrow> ''--'' \<notin> set as"
  by (induction as arbitrary: i) auto

text \<open>A run that starts, and the ways in which it does not.\<close>

lemma runCI_parts:
  assumes "''--'' \<notin> set fargs"
  shows "runCI env (fargs @ ''--'' # cmd) =
    (if cmd = [] then early 1
     else case parse_flags ci_flags [] fargs of
       FlagHelp \<Rightarrow> early 0
     | FlagError \<Rightarrow> early 2
     | FlagsOK flags rest \<Rightarrow>
         if x_euid env \<noteq> 0 then early 1
         else case ci_policy env flags of
           Inl err \<Rightarrow> early 1
         | Inr pol \<Rightarrow>
             if \<not> x_loader_ok env \<or> \<not> x_start_ok env then early 1
             else let st = ci_loop (ci_config env flags pol)
                    (parseSeverity (flag_get flags ''min-sev'' ''high'')) (x_reads env) (ci_start flags)
                  in \<lparr>oc_exit = ci_exit (st_alertCount st) (x_wait env),
                      oc_seed = Some (x_pid env, seed_info (x_pid env) (Base (hd cmd))),
                      oc_report = map_option (\<lambda>w. (sw_path w, report_text (x_rules env) w))
                        (st_sarif st)\<rparr>)"
  using find_sep_split [OF assms, of 0 cmd]
  by (cases cmd) (auto simp: runCI_def Let_def split: flag_outcome.split sum.split)

lemma ci_start_fields:
  "st_alertCount (ci_start flags) = 0" "st_tree (ci_start flags) = New"
  "st_dedup (ci_start flags) = NewDeduplicator dedupTTL"
  by (simp_all add: ci_start_def)

lemma ci_step_detect:
  assumes "ci_step_alerts cfg env evt st = (st', as)"
  obtains out where
    "Filter (v_now env) (Check (c_pr cfg) \<lparr>d_tree = st_tree st', d_policy = c_policy cfg\<rparr> evt)
       (st_dedup st) = (st_dedup st', out)"
    "as = enrich_alerts (st_tree st') evt out"
  using assms
  by (auto simp: ci_step_alerts_def detect_def track_exec_def record_event_def Let_def
      split: prod.splits if_splits)

lemma ci_emit_dedup [simp]: "st_dedup (ci_emit_alerts cfg t env i as st) = st_dedup st"
  by (induction as arbitrary: i st) (simp_all add: ci_emit_alert_def Let_def emit_alert_def)

lemma ci_step_dedup:
  "ci_step_alerts cfg env evt st = (st', as) \<Longrightarrow> st_dedup (ci_step cfg t env evt st) = st_dedup st'"
  by (simp add: ci_step_def write_event_def Let_def)

text \<open>The result of a run that starts, and the exit status from the alerts.\<close>

lemma runCI_started:
  assumes "''--'' \<notin> set fargs" "cmd \<noteq> []"
    and "parse_flags ci_flags [] fargs = FlagsOK flags rest" "x_euid env = 0"
    and "ci_policy env flags = Inr pol" "x_loader_ok env" "x_start_ok env"
  shows "runCI env (fargs @ ''--'' # cmd) =
    (let st = ci_loop (ci_config env flags pol)
           (parseSeverity (flag_get flags ''min-sev'' ''high'')) (x_reads env) (ci_start flags)
     in \<lparr>oc_exit = ci_exit (st_alertCount st) (x_wait env),
         oc_seed = Some (x_pid env, seed_info (x_pid env) (Base (hd cmd))),
         oc_report = map_option (\<lambda>w. (sw_path w, report_text (x_rules env) w)) (st_sarif st)\<rparr>)"
  using assms(2-7) runCI_parts [OF assms(1), of env cmd] by simp

lemma ci_exit_alerts:
  assumes "length (ci_alerts cfg t reads (ci_start flags)) < 2 ^ 63"
  shows "ci_exit (st_alertCount (ci_loop cfg t reads (ci_start flags))) w =
    (if list_ex (\<lambda>a. t \<le> a_Severity a) (ci_alerts cfg t reads (ci_start flags)) then 1 else wait_code w)"
proof -
  let ?as = "ci_alerts cfg t reads (ci_start flags)"
  have n: "at_least t ?as < 2 ^ 63"
    using assms le_less_trans [OF length_filter_le] by (auto simp: at_least_def)
  have c: "st_alertCount (ci_loop cfg t reads (ci_start flags)) = of_nat (at_least t ?as)"
    by (simp add: ci_loop_count ci_start_fields)
  have e: "at_least t ?as > 0 \<longleftrightarrow> list_ex (\<lambda>a. t \<le> a_Severity a) ?as"
    by (auto simp: at_least_def list_ex_iff filter_empty_conv)
  show ?thesis unfolding ci_exit_def Let_def c sint_of_nat_pos [OF n] e by simp
qed

text \<open>
  C2. The gate. When the run starts, the exit status is 1 exactly if some alert of the run is at least
  as severe as the threshold, and otherwise that of the monitored command; the SARIF report,
  if asked for, holds exactly the alerts that were counted from, and the monitored process is
  tracked as its own root. (Fewer than \<open>2^63\<close> alerts: the counter is a 64-bit integer.)
\<close>

theorem runCI_gate:
  assumes "args = fargs @ ''--'' # cmd" "''--'' \<notin> set fargs" "cmd \<noteq> []"
    and "parse_flags ci_flags [] fargs = FlagsOK flags rest" "x_euid env = 0"
    and "ci_policy env flags = Inr pol" "x_loader_ok env" "x_start_ok env"
    and "as = ci_alerts (ci_config env flags pol) (parseSeverity (flag_get flags ''min-sev'' ''high''))
      (x_reads env) (ci_start flags)" "length as < 2 ^ 63"
  shows "runCI env args =
    \<lparr>oc_exit = (if list_ex (\<lambda>a. parseSeverity (flag_get flags ''min-sev'' ''high'') \<le> a_Severity a) as
       then 1 else wait_code (x_wait env)),
     oc_seed = Some (x_pid env, seed_info (x_pid env) (Base (hd cmd))),
     oc_report = (let p = flag_get flags ''sarif'' [] in if p = [] then None
       else Some (p, report_text (x_rules env) (add_alerts (x_sha256 env) as (NewSARIFWriter p))))\<rparr>"
proof -
  let ?t = "parseSeverity (flag_get flags ''min-sev'' ''high'')"
  let ?st = "ci_loop (ci_config env flags pol) ?t (x_reads env) (ci_start flags)"
  have x: "ci_exit (st_alertCount ?st) (x_wait env) =
      (if list_ex (\<lambda>a. ?t \<le> a_Severity a) as then 1 else wait_code (x_wait env))"
    using assms(10) unfolding assms(9) by (rule ci_exit_alerts)
  have p: "sw_path (add_alerts sha xs w) = sw_path w" for sha xs w
    by (induction xs arbitrary: w) (simp_all add: add_alerts_fun)
  have s: "st_sarif ?st = map_option (add_alerts (x_sha256 env) as)
      (let p = flag_get flags ''sarif'' [] in if p \<noteq> [] then Some (NewSARIFWriter p) else None)"
    by (simp add: ci_loop_sarif assms(9)) (simp add: ci_start_def ci_config_def)
  show ?thesis
    unfolding assms(1) runCI_started [OF assms(2-8)] Let_def [of ?st] x s
    by (simp add: Let_def p) (simp add: NewSARIFWriter_def)
qed

text \<open>
  C40. The runs that do not start. Without a separator, without a command, without root, with a policy that does
  not load, or when the loader or the command fails, the status is 1; for an unknown flag it is
  2; asking for help gives 0. In none of these cases is a process monitored or a report written.
\<close>

theorem runCI_early:
  assumes "''--'' \<notin> set fargs"
  shows "runCI env fargs = early 1 \<and> runCI env (fargs @ [''--'']) = early 1 \<and>
    runCI env (fargs @ ''--'' # c # cmd) =
      (case parse_flags ci_flags [] fargs of
         FlagHelp \<Rightarrow> early 0
       | FlagError \<Rightarrow> early 2
       | FlagsOK flags rest \<Rightarrow>
           if x_euid env \<noteq> 0 \<or> (\<exists>err. ci_policy env flags = Inl err) \<or> \<not> x_loader_ok env \<or> \<not> x_start_ok env
           then early 1 else runCI env (fargs @ ''--'' # c # cmd))"
proof (intro conjI)
  show "runCI env fargs = early 1" using assms by (simp add: runCI_def find_sep_None [THEN iffD2])
  show "runCI env (fargs @ [''--'']) = early 1" by (simp add: runCI_parts [OF assms])
  show "runCI env (fargs @ ''--'' # c # cmd) =
      (case parse_flags ci_flags [] fargs of
         FlagHelp \<Rightarrow> early 0
       | FlagError \<Rightarrow> early 2
       | FlagsOK flags rest \<Rightarrow>
           if x_euid env \<noteq> 0 \<or> (\<exists>err. ci_policy env flags = Inl err) \<or> \<not> x_loader_ok env \<or> \<not> x_start_ok env
           then early 1 else runCI env (fargs @ ''--'' # c # cmd))"
    by (simp add: runCI_parts [OF assms] split: flag_outcome.split sum.split)
qed

text \<open>
  A word before the separator that is not a flag ends the parsing of flags without an error, so every
  flag after it is ignored, the threshold and the policy included: the run is the run without
  any flags.
\<close>

theorem runCI_positional:
  assumes "s = [] \<or> hd s \<noteq> CHR ''-''" "''--'' \<notin> set fargs"
  shows "runCI env (s # fargs @ ''--'' # cmd) = runCI env (''--'' # cmd)"
proof -
  have p: "parse_flags ci_flags [] (s # fargs) = FlagsOK [] (s # fargs)"
    using assms(1) by (auto simp: minus_def)
  have "''--'' \<notin> set (s # fargs)" using assms by auto
  from runCI_parts [OF this, of env cmd] runCI_parts [of "[]" env cmd] show ?thesis
    by (simp only: p parse_flags.simps(1) flag_outcome.case append_Cons append_Nil list.set
        empty_iff simp_thms)
qed

section \<open>Concrete runs\<close>

text \<open>
  A build reads the SSH key in the build phase and, a second later, a compiler of the same build
  reads it: the first alert is high, the second one critical.
\<close>

definition key_read :: "Phase \<Rightarrow> ChainEvent" where
  "key_read ph =
     (open_evt EvtFileOpen ''cc1'' ''/root/.ssh/id_rsa'')\<lparr>e_Phase := ph, e_RootPid := 100\<rparr>"

definition escalation :: "(ring_result \<times> StepEnv) list" where
  "escalation =
     [(RingRecord (encode_event (key_read PhaseBuild)), at_time 0),
      (RingRecord (encode_event (key_read PhaseCompile)), at_time (10 ^ 9))]"

definition test_env :: "(ring_result \<times> StepEnv) list \<Rightarrow> wait_result \<Rightarrow> CiEnv" where
  "test_env reads w =
     \<lparr>x_euid = 0, x_fs = no_files, x_unmarshal = (\<lambda>_. Inl ''yaml''), x_range = (\<lambda>_. []),
      x_loader_ok = True, x_start_ok = True, x_reads = reads, x_wait = w, x_pr = (\<lambda>_. False),
      x_sha256 = (\<lambda>_. []), x_pid = 4242, x_rules = (\<lambda>_. [])\<rparr>"

definition critical_only :: "string list" where
  "critical_only = [''-min-sev'', ''critical'']"

lemma key_read_event:
  "wf_event (key_read ph)" "e_EventType (key_read ph) = EvtFileOpen" "e_Phase (key_read ph) = ph"
  "e_RootPid (key_read ph) = 100"
  by (simp_all add: key_read_def open_evt_def wf_event_def zero_event_def)

lemma key_read_path: "PathStr (key_read ph) = ''/root/.ssh/id_rsa''"
proof -
  have "PathStr (open_evt EvtFileOpen ''cc1'' ''/root/.ssh/id_rsa'') = ''/root/.ssh/id_rsa''"
    by code_simp
  then show ?thesis by (simp add: key_read_def PathStr_def)
qed

lemma key_read_verdict:
  "verdicts (Check pr d (key_read ph)) =
     [(''sensitive-file-read'', if ph \<in> {PhaseCompile, PhaseLink} then SevCritical else SevHigh)]"
proof -
  have "sublist ''/root/.ssh/'' (''/root/.ssh/'' @ ''id_rsa'')" by (rule sublist_append_rightI)
  then have "sensitive ''/root/.ssh/id_rsa''" by (simp add: sensitive_def)
  then show ?thesis
    by (simp add: verdicts_Check rule_table_def Let_def key_read_event key_read_path)
qed

lemma key_read_alert:
  obtains a where "Check pr d (key_read ph) = [a]" "a_Rule a = ''sensitive-file-read''"
    "a_Severity a = (if ph \<in> {PhaseCompile, PhaseLink} then SevCritical else SevHigh)"
    "e_RootPid (a_Event a) = 100"
proof -
  obtain a where a: "Check pr d (key_read ph) = [a]"
    using key_read_verdict [of pr d ph]
    by (cases "Check pr d (key_read ph)") (auto simp: verdicts_def)
  show thesis
    using that [OF a] key_read_verdict [of pr d ph] Check_well_formed [of d "key_read ph" pr]
    by (simp add: a verdicts_def well_formed_alert_def key_read_event)
qed

definition read_key :: string where
  "read_key = ''sensitive-file-read'' @ [CHR 0x00] @ dec_str 100"

lemma at_time_now [simp]: "v_now (at_time t) = t"
  by (simp add: at_time_def)

lemma key_read_step:
  assumes "dedup_ok dedupTTL (st_dedup st)"
    and "ci_step_alerts cfg env (key_read ph) st = (st', as)"
  shows "\<exists>a. as = (if \<exists>t. last_seen (st_dedup st) read_key = Some t \<and> v_now env - t < dedupTTL then [] else [a]) \<and>
      a_Severity a = (if ph \<in> {PhaseCompile, PhaseLink} then SevCritical else SevHigh)"
    and "as \<noteq> [] \<longrightarrow> last_seen (st_dedup st') read_key = Some (v_now env)"
    and "dedup_ok dedupTTL (st_dedup st')"
proof -
  obtain out where o: "Filter (v_now env) (Check (c_pr cfg) \<lparr>d_tree = st_tree st', d_policy = c_policy cfg\<rparr>
      (key_read ph)) (st_dedup st) = (st_dedup st', out)" "as = enrich_alerts (st_tree st') (key_read ph) out"
    using ci_step_detect [OF assms(2)] .
  obtain a where a: "Check (c_pr cfg) \<lparr>d_tree = st_tree st', d_policy = c_policy cfg\<rparr> (key_read ph) = [a]"
    "a_Rule a = ''sensitive-file-read''"
    "a_Severity a = (if ph \<in> {PhaseCompile, PhaseLink} then SevCritical else SevHigh)"
    "e_RootPid (a_Event a) = 100" using key_read_alert .
  have k: "dedup_key a = read_key" by (simp add: dedup_key_def read_key_def a(2,4))
  note f = Filter_spec [OF assms(1) o(1) [unfolded a(1)]]
  have out: "out = (if \<exists>t. last_seen (st_dedup st) read_key = Some t \<and> v_now env - t < dedupTTL then [] else [a])"
    using f(3,4) k by (cases out) (auto simp: not_less split: if_splits)
  show "\<exists>a. as = (if \<exists>t. last_seen (st_dedup st) read_key = Some t \<and> v_now env - t < dedupTTL then [] else [a]) \<and>
      a_Severity a = (if ph \<in> {PhaseCompile, PhaseLink} then SevCritical else SevHigh)"
    by (rule exI [of _ "enriched (st_tree st') (key_read ph) a"])
      (simp add: o(2) out enrich_alerts_map a(3))
  show "as \<noteq> [] \<longrightarrow> last_seen (st_dedup st') read_key = Some (v_now env)"
    using f(5) [of read_key] k by (auto simp: o(2) enrich_alerts_map out)
  show "dedup_ok dedupTTL (st_dedup st')" by (rule f(1))
qed

lemma critical_flags:
  "parse_flags ci_flags [] critical_only = FlagsOK [(''min-sev'', ''critical'')] []"
  "''--'' \<notin> set critical_only"
  by (simp_all add: critical_only_def ci_flags_def minus_def equals_def flag_split_def flag_body_def)

lemma critical_exit:
  "oc_exit (runCI (test_env reads w) (critical_only @ [''--'', ''make''])) =
   ci_exit (of_nat (at_least SevCritical (ci_alerts (ci_config (test_env reads w)
     [(''min-sev'', ''critical'')] None) SevCritical reads (ci_start [(''min-sev'', ''critical'')])))) w"
proof -
  have m: "flag_get [(''min-sev'', ''critical'')] ''min-sev'' ''high'' = ''critical''"
    "flag_get [(''min-sev'', ''critical'')] ''policy'' [] = []" by (simp_all add: flag_get_def)
  show ?thesis
    using runCI_parts [OF critical_flags(2), of "test_env reads w" "[''make'']"]
    by (simp add: critical_flags(1) test_env_def ci_policy_def m parseSeverity_def Let_def
        ci_loop_count ci_start_fields)
qed

lemma ci_alerts_read:
  "wf_event e \<Longrightarrow> ci_alerts cfg t ((RingRecord (encode_event e), env) # reads) st =
     snd (ci_step_alerts cfg env e st) @ ci_alerts cfg t reads (ci_step cfg t env e st)"
  by (simp add: ReadEvent_encoded)

text \<open>Two reads of the key: what is counted at the threshold critical.\<close>

lemma key_read_first:
  assumes "st_dedup st = NewDeduplicator dedupTTL"
    and "ci_step_alerts cfg (at_time t) (key_read ph) st = (st1, as)"
  obtains a where "as = [a]" "a_Severity a = (if ph \<in> {PhaseCompile, PhaseLink} then SevCritical else SevHigh)"
    "last_seen (st_dedup st1) read_key = Some t" "dedup_ok dedupTTL (st_dedup st1)"
proof -
  have "dedup_ok dedupTTL (st_dedup st)" using dedupTTL_ok by (simp add: assms(1) dedup_ok_New)
  moreover have "last_seen (st_dedup st) k = None" for k
    by (simp add: assms(1) last_seen_def NewDeduplicator_def)
  ultimately show thesis using key_read_step [OF _ assms(2)] that by auto
qed

lemma key_read_count:
  assumes "st_dedup st = NewDeduplicator dedupTTL"
  shows "at_least SevCritical (ci_alerts cfg SevCritical
      [(RingRecord (encode_event (key_read ph)), at_time t)] st) =
    (if ph \<in> {PhaseCompile, PhaseLink} then 1 else 0)"
proof -
  obtain st1 as where s1: "ci_step_alerts cfg (at_time t) (key_read ph) st = (st1, as)" by force
  obtain a where "as = [a]" "a_Severity a = (if ph \<in> {PhaseCompile, PhaseLink} then SevCritical else SevHigh)"
    using key_read_first [OF assms s1] by metis
  then show ?thesis
    by (simp only: ci_alerts_read key_read_event s1 snd_conv) (simp add: at_least_def)
qed

lemma key_reads_count:
  assumes "st_dedup st = NewDeduplicator dedupTTL" "t' - t < dedupTTL"
  shows "at_least SevCritical (ci_alerts cfg SevCritical
      [(RingRecord (encode_event (key_read ph)), at_time t), (RingRecord (encode_event (key_read ph')), at_time t')] st) =
    (if ph \<in> {PhaseCompile, PhaseLink} then 1 else 0)"
proof -
  obtain st1 as where s1: "ci_step_alerts cfg (at_time t) (key_read ph) st = (st1, as)" by force
  obtain a where a: "as = [a]"
    "a_Severity a = (if ph \<in> {PhaseCompile, PhaseLink} then SevCritical else SevHigh)"
    "last_seen (st_dedup st1) read_key = Some t" "dedup_ok dedupTTL (st_dedup st1)"
    using key_read_first [OF assms(1) s1] by metis
  let ?st = "ci_step cfg SevCritical (at_time t) (key_read ph) st"
  have d: "st_dedup ?st = st_dedup st1" by (rule ci_step_dedup [OF s1])
  obtain st2 bs where s2: "ci_step_alerts cfg (at_time t') (key_read ph') ?st = (st2, bs)" by force
  have "dedup_ok dedupTTL (st_dedup ?st)" using a(4) by (simp only: d)
  from key_read_step(1) [OF this s2, unfolded d] have "bs = []" using a(3) assms(2) by auto
  then show ?thesis
    using a(1,2) by (simp only: ci_alerts_read key_read_event s1 s2 snd_conv) (simp add: at_least_def)
qed

text \<open>
  C38. The gate can be passed by a critical finding. A compiler that reads the SSH key fails a run with the
  threshold critical; the same read does not, if another process of the build read the key in the
  second before: the first, less severe alert hides the second one from the count, although the
  rule engine rates it critical.
\<close>

theorem gate_misses_escalation:
  "verdicts (Check pr d (key_read PhaseCompile)) = [(''sensitive-file-read'', SevCritical)] \<and>
   oc_exit (runCI (test_env (tl escalation) WaitOK) (critical_only @ [''--'', ''make''])) = 1 \<and>
   oc_exit (runCI (test_env escalation WaitOK) (critical_only @ [''--'', ''make''])) = 0"
proof (intro conjI)
  show "verdicts (Check pr d (key_read PhaseCompile)) = [(''sensitive-file-read'', SevCritical)]"
    by (simp add: key_read_verdict)
  show "oc_exit (runCI (test_env (tl escalation) WaitOK) (critical_only @ [''--'', ''make''])) = 1"
    unfolding critical_exit
    by (simp only: escalation_def list.sel key_read_count [OF ci_start_fields(3)]) (simp add: ci_exit_def Let_def)
  have "(10 ^ 9 :: int) - 0 < dedupTTL" by (simp add: dedupTTL_def)
  note two = key_reads_count [OF ci_start_fields(3) this]
  show "oc_exit (runCI (test_env escalation WaitOK) (critical_only @ [''--'', ''make''])) = 0"
    unfolding critical_exit by (simp only: escalation_def two) (simp add: ci_exit_def wait_code_def Let_def)
qed

theorem runCI_gate_witness:
  "oc_exit (runCI (test_env (tl escalation) WaitOK) (critical_only @ ''--'' # [''make''])) = 1"
proof -
  define cfg where "cfg = ci_config (test_env (tl escalation) WaitOK) [(''min-sev'', ''critical'')] None"
  let ?st = "ci_start [(''min-sev'', ''critical'')]"
  have m: "parseSeverity (flag_get [(''min-sev'', ''critical'')] ''min-sev'' ''high'') = SevCritical"
    "ci_policy (test_env (tl escalation) WaitOK) [(''min-sev'', ''critical'')] = Inr None"
    by (simp_all add: flag_get_def parseSeverity_def ci_policy_def)
  obtain st1 as where s1: "ci_step_alerts cfg (at_time (10 ^ 9)) (key_read PhaseCompile) ?st = (st1, as)"
    by force
  obtain a where a: "as = [a]" "a_Severity a = SevCritical"
    using key_read_first [OF ci_start_fields(3) s1] by auto
  have "ci_alerts cfg SevCritical (tl escalation) ?st = [a]"
    by (simp only: escalation_def list.sel ci_alerts_read key_read_event s1 snd_conv a(1)) simp
  then have as: "ci_alerts (ci_config (test_env (tl escalation) WaitOK) [(''min-sev'', ''critical'')] None)
      SevCritical (x_reads (test_env (tl escalation) WaitOK)) ?st = [a]"
    by (simp only: cfg_def test_env_def CiEnv.select_convs)
  from runCI_gate [OF refl critical_flags(2) _ critical_flags(1) _ m(2) _ _ refl, of "[''make'']"]
  show ?thesis by (simp only: m(1) as a(2)) (simp add: test_env_def a(2))
qed

theorem runCI_early_witness:
  "runCI (test_env [] WaitOK) [''-q'', ''--'', ''make''] = early 2 \<and>
   runCI (test_env [] WaitOK) [''-h'', ''--'', ''make''] = early 0"
proof -
  have p: "parse_flags ci_flags [] [''-q''] = FlagError" "parse_flags ci_flags [] [''-h''] = FlagHelp"
    by (simp_all add: ci_flags_def minus_def equals_def flag_split_def flag_body_def)
  show ?thesis
    using runCI_early [of "[''-q'']" "test_env [] WaitOK" "''make''" "[]"]
      runCI_early [of "[''-h'']" "test_env [] WaitOK" "''make''" "[]"]
    by (simp only: p append_Cons append_Nil flag_outcome.case) simp
qed

theorem runCI_positional_witness:
  "runCI env (''build'' # [''-min-sev'', ''low''] @ ''--'' # [''make'']) = runCI env (''--'' # [''make''])"
  by (rule runCI_positional) simp_all

end
