(* ===== verification/Loader.thy ===== *)
theory Loader
  imports Wire GoPath "HOL-Library.Multiset"
begin

text \<open>
  Start-up and shut-down of the loader: \<open>New\<close>, \<open>Close\<close>, \<open>findLibc\<close> and \<open>libcFromMaps\<close> of
  \<open>internal/loader/loader.go\<close>, and the object structs with their \<open>Close\<close> methods and
  \<open>loadChainscopeObjects\<close> of \<open>chainscope_x86_bpfel.go\<close>.

  The calls into \<open>github.com/cilium/ebpf\<close> are answered by the record \<open>LoaderEnv\<close>: an error, or
  a handle. What the program does with the handles is the list of \<open>effect\<close>s it causes, in
  order: the handles it received and the handles it closed. So the properties speak about every
  answer the library may give. A nil \<open>*ebpf.Map\<close> is \<open>None\<close>; closing it does nothing.
\<close>

type_synonym handle = nat

datatype effect = Opened handle | Closed handle

section \<open>The objects\<close>

record chainscopePrograms =
  TraceBpf :: handle
  TraceConnect :: handle
  TraceExecve :: handle
  TraceExecveExit :: handle
  TraceExecveat :: handle
  TraceExit :: handle
  TraceFchmodat :: handle
  TraceGetaddrinfo :: handle
  TraceMemfdCreate :: handle
  TraceOpenat :: handle

record chainscopeMaps =
  DropCount :: "handle option"
  EnvScratch :: handle
  Events :: handle
  ProcTree :: handle
  SavedExecs :: handle

record chainscopeObjects =
  o_programs :: chainscopePrograms
  o_maps :: chainscopeMaps

text \<open>
  What the library answers. \<open>le_assign\<close> is \<open>LoadAndAssign\<close>: it gets the names of the
  struct's \<open>ebpf\<close> tags and gives a handle for each; \<open>le_spec_maps\<close> are the maps the embedded
  object file declares; \<open>le_close\<close> is the error of a \<open>Close\<close>.
\<close>

record LoaderEnv =
  le_memlock :: "string option"
  le_spec_maps :: "string + string list"
  le_assign :: "string list \<Rightarrow> string + (string \<Rightarrow> handle)"
  le_tracepoint :: "string \<Rightarrow> string \<Rightarrow> handle \<Rightarrow> string + handle"
  le_open_exe :: "string \<Rightarrow> string option"
  le_uprobe :: "string \<Rightarrow> string \<Rightarrow> handle \<Rightarrow> string + handle"
  le_reader :: "handle \<Rightarrow> string + handle"
  le_close :: "handle \<Rightarrow> string option"
  le_read :: "string \<Rightarrow> string option"
  le_stat :: "string \<Rightarrow> bool"

definition loadChainscope :: "LoaderEnv \<Rightarrow> string + string list" where
  "loadChainscope env =
     (case le_spec_maps env of
        Inl err \<Rightarrow> Inl (''can't load chainscope: '' @ err)
      | Inr spec \<Rightarrow> Inr spec)"

definition program_names :: "string list" where
  "program_names =
     [''trace_bpf'', ''trace_connect'', ''trace_execve'', ''trace_execve_exit'', ''trace_execveat'',
      ''trace_exit'', ''trace_fchmodat'', ''trace_getaddrinfo'', ''trace_memfd_create'',
      ''trace_openat'']"

definition programs_of :: "(string \<Rightarrow> handle) \<Rightarrow> chainscopePrograms" where
  "programs_of h =
     \<lparr>TraceBpf = h ''trace_bpf'', TraceConnect = h ''trace_connect'',
      TraceExecve = h ''trace_execve'', TraceExecveExit = h ''trace_execve_exit'',
      TraceExecveat = h ''trace_execveat'', TraceExit = h ''trace_exit'',
      TraceFchmodat = h ''trace_fchmodat'', TraceGetaddrinfo = h ''trace_getaddrinfo'',
      TraceMemfdCreate = h ''trace_memfd_create'', TraceOpenat = h ''trace_openat''\<rparr>"

definition legacy_map_names :: "string list" where
  "legacy_map_names = [''env_scratch'', ''events'', ''proc_tree'', ''saved_execs'']"

definition maps_of :: "handle option \<Rightarrow> (string \<Rightarrow> handle) \<Rightarrow> chainscopeMaps" where
  "maps_of drop_count h =
     \<lparr>DropCount = drop_count, EnvScratch = h ''env_scratch'', Events = h ''events'',
      ProcTree = h ''proc_tree'', SavedExecs = h ''saved_execs''\<rparr>"

text \<open>\<open>loadChainscopeObjects\<close> for a \<open>*chainscopeObjects\<close>, with the handles it received.\<close>

definition loadChainscopeObjects :: "LoaderEnv \<Rightarrow> (string + chainscopeObjects) \<times> effect list" where
  "loadChainscopeObjects env =
     (case loadChainscope env of
        Inl err \<Rightarrow> (Inl err, [])
      | Inr spec \<Rightarrow>
          (if ''drop_count'' \<notin> set spec then
             (let names = program_names @ legacy_map_names in
              case le_assign env names of
                Inl err \<Rightarrow> (Inl err, [])
              | Inr h \<Rightarrow> (Inr \<lparr>o_programs = programs_of h, o_maps = maps_of None h\<rparr>,
                          map (Opened \<circ> h) names))
           else
             (let names = program_names @ ''drop_count'' # legacy_map_names in
              case le_assign env names of
                Inl err \<Rightarrow> (Inl err, [])
              | Inr h \<Rightarrow>
                  (Inr \<lparr>o_programs = programs_of h, o_maps = maps_of (Some (h ''drop_count'')) h\<rparr>,
                   map (Opened \<circ> h) names))))"

section \<open>Closing\<close>

text \<open>One \<open>io.Closer\<close>: its error, if any, and its effects.\<close>

definition close_handle :: "LoaderEnv \<Rightarrow> handle \<Rightarrow> string option \<times> effect list" where
  "close_handle env h = (le_close env h, [Closed h])"

definition close_map :: "LoaderEnv \<Rightarrow> handle option \<Rightarrow> string option \<times> effect list" where
  "close_map env m = (case m of None \<Rightarrow> (None, []) | Some h \<Rightarrow> close_handle env h)"

text \<open>\<open>_ChainscopeClose\<close> stops at the first error.\<close>

fun chainscopeClose :: "(string option \<times> effect list) list \<Rightarrow> string option \<times> effect list" where
  "chainscopeClose [] = (None, [])"
| "chainscopeClose ((res, es) # closers) =
     (case res of
        Some err \<Rightarrow> (Some err, es)
      | None \<Rightarrow> (let (r, es') = chainscopeClose closers in (r, es @ es')))"

definition Programs_Close :: "LoaderEnv \<Rightarrow> chainscopePrograms \<Rightarrow> string option \<times> effect list" where
  "Programs_Close env p =
     chainscopeClose (map (close_handle env)
       [TraceBpf p, TraceConnect p, TraceExecve p, TraceExecveExit p, TraceExecveat p, TraceExit p,
        TraceFchmodat p, TraceGetaddrinfo p, TraceMemfdCreate p, TraceOpenat p])"

definition Maps_Close :: "LoaderEnv \<Rightarrow> chainscopeMaps \<Rightarrow> string option \<times> effect list" where
  "Maps_Close env m =
     chainscopeClose (map (close_map env)
       [DropCount m, Some (EnvScratch m), Some (Events m), Some (ProcTree m), Some (SavedExecs m)])"

definition Objects_Close :: "LoaderEnv \<Rightarrow> chainscopeObjects \<Rightarrow> string option \<times> effect list" where
  "Objects_Close env ob =
     chainscopeClose [Programs_Close env (o_programs ob), Maps_Close env (o_maps ob)]"

record Loader =
  l_objs :: chainscopeObjects
  l_links :: "handle list"
  l_rd :: "handle option"

text \<open>\<open>Loader.Close\<close> ignores the errors of what it closes.\<close>

definition Loader_Close :: "LoaderEnv \<Rightarrow> Loader \<Rightarrow> effect list" where
  "Loader_Close env l =
     (case l_rd l of None \<Rightarrow> [] | Some rd \<Rightarrow> [Closed rd]) @
     map Closed (l_links l) @ snd (Objects_Close env (l_objs l))"

section \<open>Finding libc\<close>

text \<open>
  \<open>bytes.Fields\<close>: the maximal runs of bytes between white space; \<open>cur\<close> is the field that is
  being read.
\<close>

function fields_loop :: "string \<Rightarrow> string \<Rightarrow> string list" where
  "fields_loop cur s =
     (if s = [] then (if cur = [] then [] else [cur])
      else
        (let r = fst (DecodeRune s); w = snd (DecodeRune s) in
         if IsSpace r then (if cur = [] then [] else [cur]) @ fields_loop [] (drop (snd (DecodeRune s)) s)
         else fields_loop (cur @ take w s) (drop (snd (DecodeRune s)) s)))"
  by pat_completeness auto
termination
proof (relation "measure (\<lambda>(cur, s). length s)")
  fix cur s :: string
  assume "s \<noteq> []"
  then show "(([], drop (snd (DecodeRune s)) s), cur, s) \<in> measure (\<lambda>(cur, s). length s)"
    using DecodeRune_width [of s] by simp
next
  fix cur s :: string and w
  assume "s \<noteq> []"
  then show "((cur @ take w s, drop (snd (DecodeRune s)) s), cur, s) \<in> measure (\<lambda>(cur, s). length s)"
    using DecodeRune_width [of s] by simp
qed simp

declare fields_loop.simps [simp del]

definition Fields :: "string \<Rightarrow> string list" where
  "Fields s = fields_loop [] s"

text \<open>The body of the loop of \<open>libcFromMaps\<close>: the path a line gives, if it gives one.\<close>

definition libc_line :: "(string \<Rightarrow> bool) \<Rightarrow> string \<Rightarrow> string option" where
  "libc_line stat line =
     (if Contains line ''libc'' \<and> Contains line ''.so'' then
        (let fields = Fields line in
         if 6 \<le> length fields then
           (let p = fields ! 5 in
            if p \<noteq> [] \<and> hd p = CHR ''/'' \<and> stat p then Some (Clean p) else None)
         else None)
      else None)"

fun libc_loop :: "(string \<Rightarrow> bool) \<Rightarrow> string list \<Rightarrow> string option" where
  "libc_loop stat [] = None"
| "libc_loop stat (line # rest) =
     (case libc_line stat line of Some p \<Rightarrow> Some p | None \<Rightarrow> libc_loop stat rest)"

definition libcFromMaps :: "LoaderEnv \<Rightarrow> string option" where
  "libcFromMaps env =
     (case le_read env ''/proc/self/maps'' of
        None \<Rightarrow> None
      | Some data \<Rightarrow> libc_loop (le_stat env) (Split (CHR 0x0A) data))"

definition libc_candidates :: "string list" where
  "libc_candidates =
     [''/lib/x86_64-linux-gnu/libc.so.6'', ''/lib/aarch64-linux-gnu/libc.so.6'',
      ''/lib/arm-linux-gnueabihf/libc.so.6'', ''/lib/i386-linux-gnu/libc.so.6'',
      ''/usr/lib/x86_64-linux-gnu/libc.so.6'', ''/usr/lib/libc.so.6'', ''/lib/libc.so.6'',
      ''/usr/lib64/libc.so.6'', ''/lib64/libc.so.6'']"

definition findLibc :: "LoaderEnv \<Rightarrow> string option" where
  "findLibc env =
     (case libcFromMaps env of
        Some path \<Rightarrow> Some path
      | None \<Rightarrow> find (le_stat env) libc_candidates)"

section \<open>\<open>New\<close>\<close>

datatype new_error =
    RemovingMemlock string
  | LoadingObjects string
  | Attaching string string string
  | OpeningRing string

definition mandatory :: "chainscopePrograms \<Rightarrow> (string \<times> string \<times> handle) list" where
  "mandatory p =
     [(''syscalls'', ''sys_enter_execve'', TraceExecve p),
      (''syscalls'', ''sys_exit_execve'', TraceExecveExit p),
      (''sched'', ''sched_process_exit'', TraceExit p),
      (''syscalls'', ''sys_enter_openat'', TraceOpenat p),
      (''syscalls'', ''sys_enter_connect'', TraceConnect p),
      (''syscalls'', ''sys_enter_memfd_create'', TraceMemfdCreate p),
      (''syscalls'', ''sys_enter_execveat'', TraceExecveat p),
      (''syscalls'', ''sys_enter_fchmodat'', TraceFchmodat p)]"

text \<open>The loop over the mandatory hooks: a hook that cannot be attached closes the loader.\<close>

fun attach_loop ::
  "LoaderEnv \<Rightarrow> (string \<times> string \<times> handle) list \<Rightarrow> Loader \<Rightarrow> (new_error + Loader) \<times> effect list" where
  "attach_loop env [] l = (Inr l, [])"
| "attach_loop env ((grp, name, prog) # hs) l =
     (case le_tracepoint env grp name prog of
        Inl err \<Rightarrow> (Inl (Attaching grp name err), Loader_Close env l)
      | Inr lnk \<Rightarrow>
          (let (res, es) = attach_loop env hs (l\<lparr>l_links := l_links l @ [lnk]\<rparr>)
           in (res, Opened lnk # es)))"

text \<open>The optional hooks add a link when everything works.\<close>

definition attach_bpf :: "LoaderEnv \<Rightarrow> Loader \<Rightarrow> Loader \<times> effect list" where
  "attach_bpf env l =
     (case le_tracepoint env ''syscalls'' ''sys_enter_bpf'' (TraceBpf (o_programs (l_objs l))) of
        Inl err \<Rightarrow> (l, [])
      | Inr lnk \<Rightarrow> (l\<lparr>l_links := l_links l @ [lnk]\<rparr>, [Opened lnk]))"

definition attach_dns :: "LoaderEnv \<Rightarrow> Loader \<Rightarrow> Loader \<times> effect list" where
  "attach_dns env l =
     (case findLibc env of
        None \<Rightarrow> (l, [])
      | Some libcPath \<Rightarrow>
          (case le_open_exe env libcPath of
             Some err \<Rightarrow> (l, [])
           | None \<Rightarrow>
               (case le_uprobe env libcPath ''getaddrinfo'' (TraceGetaddrinfo (o_programs (l_objs l))) of
                  Inl err \<Rightarrow> (l, [])
                | Inr ulnk \<Rightarrow> (l\<lparr>l_links := l_links l @ [ulnk]\<rparr>, [Opened ulnk]))))"

definition open_ring :: "LoaderEnv \<Rightarrow> Loader \<Rightarrow> (new_error + Loader) \<times> effect list" where
  "open_ring env l =
     (case le_reader env (Events (o_maps (l_objs l))) of
        Inl err \<Rightarrow> (Inl (OpeningRing err), Loader_Close env l)
      | Inr rd \<Rightarrow> (Inr (l\<lparr>l_rd := Some rd\<rparr>), [Opened rd]))"

definition New_Loader :: "LoaderEnv \<Rightarrow> (new_error + Loader) \<times> effect list" where
  "New_Loader env =
     (case le_memlock env of
        Some err \<Rightarrow> (Inl (RemovingMemlock err), [])
      | None \<Rightarrow>
          (let (r0, es0) = loadChainscopeObjects env in
           case r0 of
             Inl err \<Rightarrow> (Inl (LoadingObjects err), es0)
           | Inr objs \<Rightarrow>
               (let (r1, es1) = attach_loop env (mandatory (o_programs objs))
                                  \<lparr>l_objs = objs, l_links = [], l_rd = None\<rparr> in
                case r1 of
                  Inl err \<Rightarrow> (Inl err, es0 @ es1)
                | Inr l \<Rightarrow>
                    (let (l, es2) = attach_bpf env l;
                         (l, es3) = attach_dns env l;
                         (res, es4) = open_ring env l
                     in (res, es0 @ es1 @ es2 @ es3 @ es4)))))"

section \<open>Handles received and closed\<close>

fun opened :: "effect list \<Rightarrow> handle multiset" where
  "opened [] = {#}"
| "opened (Opened h # es) = add_mset h (opened es)"
| "opened (Closed h # es) = opened es"

fun closed :: "effect list \<Rightarrow> handle multiset" where
  "closed [] = {#}"
| "closed (Opened h # es) = closed es"
| "closed (Closed h # es) = add_mset h (closed es)"

lemma opened_append [simp]: "opened (es @ es') = opened es + opened es'"
  by (induction es rule: opened.induct) auto

lemma closed_append [simp]: "closed (es @ es') = closed es + closed es'"
  by (induction es rule: closed.induct) auto

lemma effects_Closed [simp]: "opened (map Closed hs) = {#}" "closed (map Closed hs) = mset hs"
  by (induction hs) auto

lemma effects_Opened [simp]: "opened (map Opened hs) = mset hs" "closed (map Opened hs) = {#}"
  by (induction hs) auto

lemma effects_Opened_map [simp]:
  "opened (map (Opened \<circ> h) ns) = mset (map h ns)" "closed (map (Opened \<circ> h) ns) = {#}"
  by (induction ns) auto

definition program_list :: "chainscopePrograms \<Rightarrow> handle list" where
  "program_list p =
     [TraceBpf p, TraceConnect p, TraceExecve p, TraceExecveExit p, TraceExecveat p, TraceExit p,
      TraceFchmodat p, TraceGetaddrinfo p, TraceMemfdCreate p, TraceOpenat p]"

definition map_list :: "chainscopeMaps \<Rightarrow> handle list" where
  "map_list m =
     (case DropCount m of None \<Rightarrow> [] | Some h \<Rightarrow> [h]) @
     [EnvScratch m, Events m, ProcTree m, SavedExecs m]"

definition object_list :: "chainscopeObjects \<Rightarrow> handle list" where
  "object_list ob = program_list (o_programs ob) @ map_list (o_maps ob)"

definition handles_of :: "Loader \<Rightarrow> handle multiset" where
  "handles_of l =
     mset (case l_rd l of None \<Rightarrow> [] | Some rd \<Rightarrow> [rd]) + mset (l_links l) + mset (object_list (l_objs l))"

text \<open>The handles that are open after the effects.\<close>

definition live :: "effect list \<Rightarrow> handle multiset" where
  "live es = opened es - closed es"

definition closing_works :: "LoaderEnv \<Rightarrow> bool" where
  "closing_works env \<longleftrightarrow> (\<forall>h. le_close env h = None)"

text \<open>Closing a list of handles closes a prefix of it, all of it if no close fails.\<close>

lemma chainscopeClose_append:
  "snd (chainscopeClose (cs @ cs')) =
     snd (chainscopeClose cs) @ (if fst (chainscopeClose cs) = None then snd (chainscopeClose cs') else [])
   \<and> (fst (chainscopeClose (cs @ cs')) = None \<longleftrightarrow>
        fst (chainscopeClose cs) = None \<and> fst (chainscopeClose cs') = None)"
  by (induction cs rule: chainscopeClose.induct) (auto split: option.split prod.splits)

lemma close_handle_Cons:
  "snd (chainscopeClose (close_handle env h # cs)) =
     Closed h # (if le_close env h = None then snd (chainscopeClose cs) else [])"
  "fst (chainscopeClose (close_handle env h # cs)) =
     (if le_close env h = None then fst (chainscopeClose cs) else le_close env h)"
  by (auto simp: close_handle_def split: option.split prod.splits)

lemma close_handles_prefix:
  "\<exists>k. snd (chainscopeClose (map (close_handle env) hs)) = map Closed (take k hs)"
proof (induction hs)
  case (Cons h hs)
  then obtain k where "snd (chainscopeClose (map (close_handle env) hs)) = map Closed (take k hs)" ..
  then show ?case
    by (auto simp: close_handle_Cons intro: exI [of _ "Suc k"] exI [of _ 1])
qed simp

lemma close_handles_all:
  "closing_works env \<Longrightarrow> snd (chainscopeClose (map (close_handle env) hs)) = map Closed hs"
  by (induction hs) (simp_all add: close_handle_Cons closing_works_def)

lemma Maps_Close_handles: "Maps_Close env m = chainscopeClose (map (close_handle env) (map_list m))"
  by (simp add: Maps_Close_def map_list_def close_map_def split: option.split)

lemma Programs_Close_handles:
  "Programs_Close env p = chainscopeClose (map (close_handle env) (program_list p))"
  by (simp add: Programs_Close_def program_list_def)

lemma chainscopeClose_pair:
  "snd (chainscopeClose [c, c']) = snd c @ (if fst c = None then snd c' else [])"
  by (cases c; cases c') (auto split: option.split)

lemma Objects_Close_handles:
  "snd (Objects_Close env ob) = snd (chainscopeClose (map (close_handle env) (object_list ob)))"
  by (simp add: Objects_Close_def chainscopeClose_pair Programs_Close_handles Maps_Close_handles
      object_list_def chainscopeClose_append)

lemma Loader_Close_effects:
  obtains k where "opened (Loader_Close env l) = {#}"
    "closed (Loader_Close env l) = mset (case l_rd l of None \<Rightarrow> [] | Some rd \<Rightarrow> [rd]) +
       mset (l_links l) + mset (take k (object_list (l_objs l)))"
proof -
  obtain k where "snd (Objects_Close env (l_objs l)) = map Closed (take k (object_list (l_objs l)))"
    using close_handles_prefix [of env "object_list (l_objs l)"]
    by (auto simp: Objects_Close_handles)
  then show thesis
    by (intro that [of k]) (auto simp: Loader_Close_def split: option.split)
qed

lemma Loader_Close_all:
  "closing_works env \<Longrightarrow> closed (Loader_Close env l) = handles_of l"
  by (auto simp: Loader_Close_def handles_of_def Objects_Close_handles close_handles_all
      split: option.split)

section \<open>The runs of \<open>New\<close>\<close>

lemma load_objects_effects:
  assumes "loadChainscopeObjects env = (r, es)"
  shows "closed es = {#}" "r = Inr objs \<Longrightarrow> opened es = mset (object_list objs)"
    "r = Inl err \<Longrightarrow> es = []"
  using assms
  by (auto simp: loadChainscopeObjects_def Let_def object_list_def program_list_def map_list_def
      programs_of_def maps_of_def program_names_def legacy_map_names_def
      split: sum.splits if_splits)

lemma attach_loop_cases:
  assumes "attach_loop env hs l = (r, es)"
  obtains (failed) err lnks where "r = Inl err"
      "es = map Opened lnks @ Loader_Close env (l\<lparr>l_links := l_links l @ lnks\<rparr>)"
      "\<not> list_all (\<lambda>(g, n, p). \<exists>lnk. le_tracepoint env g n p = Inr lnk) hs"
    | (attached) lnks where "r = Inr (l\<lparr>l_links := l_links l @ lnks\<rparr>)" "es = map Opened lnks"
      "map (\<lambda>(g, n, p). le_tracepoint env g n p) hs = map Inr lnks"
  using assms
proof (induction env hs l arbitrary: r es thesis rule: attach_loop.induct)
  case (1 env l)
  then show ?case by auto
next
  case (2 env grp name prog hs l)
  show ?case
  proof (cases "le_tracepoint env grp name prog")
    case (Inl err)
    with 2(4) show ?thesis by (intro "2.prems"(1) [of _ "[]"]) auto
  next
    case (Inr lnk)
    let ?l = "l\<lparr>l_links := l_links l @ [lnk]\<rparr>"
    obtain r' es' where r': "attach_loop env hs ?l = (r', es')" by force
    with 2(4) Inr have r: "r = r'" "es = Opened lnk # es'" by auto
    show ?thesis
    proof (rule "2.IH" [OF Inr _ _ r'])
      fix err lnks
      assume "r' = Inl err" "es' = map Opened lnks @ Loader_Close env (?l\<lparr>l_links := l_links ?l @ lnks\<rparr>)"
        "\<not> list_all (\<lambda>(g, n, p). \<exists>lnk. le_tracepoint env g n p = Inr lnk) hs"
      then show thesis by (intro "2.prems"(1) [of _ "lnk # lnks"]) (auto simp: r)
    next
      fix lnks
      assume "r' = Inr (?l\<lparr>l_links := l_links ?l @ lnks\<rparr>)" "es' = map Opened lnks"
        "map (\<lambda>(g, n, p). le_tracepoint env g n p) hs = map Inr lnks"
      then show thesis by (intro "2.prems"(2) [of "lnk # lnks"]) (auto simp: r Inr)
    qed
  qed
qed

text \<open>The links of the optional hooks.\<close>

definition bpf_links :: "LoaderEnv \<Rightarrow> chainscopeObjects \<Rightarrow> handle list" where
  "bpf_links env objs =
     (case le_tracepoint env ''syscalls'' ''sys_enter_bpf'' (TraceBpf (o_programs objs)) of
        Inl err \<Rightarrow> [] | Inr lnk \<Rightarrow> [lnk])"

definition dns_links :: "LoaderEnv \<Rightarrow> chainscopeObjects \<Rightarrow> handle list" where
  "dns_links env objs =
     (case findLibc env of None \<Rightarrow> []
      | Some p \<Rightarrow>
          (if le_open_exe env p = None then
             (case le_uprobe env p ''getaddrinfo'' (TraceGetaddrinfo (o_programs objs)) of
                Inl err \<Rightarrow> [] | Inr lnk \<Rightarrow> [lnk])
           else []))"

lemma attach_bpf_links:
  "attach_bpf env l = (l\<lparr>l_links := l_links l @ bpf_links env (l_objs l)\<rparr>, map Opened (bpf_links env (l_objs l)))"
  by (simp add: attach_bpf_def bpf_links_def split: sum.split)

lemma attach_dns_links:
  "attach_dns env l = (l\<lparr>l_links := l_links l @ dns_links env (l_objs l)\<rparr>, map Opened (dns_links env (l_objs l)))"
  by (simp add: attach_dns_def dns_links_def split: option.split sum.split)

text \<open>
  The runs of \<open>New\<close>: nothing was received, or some links were attached and then the loader was
  closed, or everything went well.
\<close>

definition hook_results :: "LoaderEnv \<Rightarrow> chainscopeObjects \<Rightarrow> (string + handle) list" where
  "hook_results env objs = map (\<lambda>(g, n, p). le_tracepoint env g n p) (mandatory (o_programs objs))"

definition hooks_attach :: "LoaderEnv \<Rightarrow> chainscopeObjects \<Rightarrow> bool" where
  "hooks_attach env objs \<longleftrightarrow> list_all (\<lambda>r. \<not> isl r) (hook_results env objs)"

lemma hooks_attach_mandatory:
  "hooks_attach env objs \<longleftrightarrow>
     list_all (\<lambda>(g, n, p). \<exists>lnk. le_tracepoint env g n p = Inr lnk) (mandatory (o_programs objs))"
  unfolding hooks_attach_def hook_results_def list.pred_map
  by (rule list.pred_cong [OF refl]) (auto simp: isl_def split: sum.split, metis sum.exhaust)

lemma New_Loader_cases:
  assumes "New_Loader env = (r, es)"
  obtains (nothing) err where "r = Inl err" "es = []"
      "le_memlock env \<noteq> None \<or> isl (fst (loadChainscopeObjects env))"
    | (closed_again) objs es0 lnks err where "loadChainscopeObjects env = (Inr objs, es0)"
      "le_memlock env = None" "r = Inl err"
      "es = es0 @ map Opened lnks @ Loader_Close env \<lparr>l_objs = objs, l_links = lnks, l_rd = None\<rparr>"
      "\<not> hooks_attach env objs \<or> isl (le_reader env (Events (o_maps objs)))"
    | (ready) objs es0 hooks rd where "loadChainscopeObjects env = (Inr objs, es0)"
      "le_memlock env = None"
      "hook_results env objs = map Inr hooks" "le_reader env (Events (o_maps objs)) = Inr rd"
      "r = Inr \<lparr>l_objs = objs, l_links = hooks @ bpf_links env objs @ dns_links env objs, l_rd = Some rd\<rparr>"
      "es = es0 @ map Opened (hooks @ bpf_links env objs @ dns_links env objs) @ [Opened rd]"
proof (cases "le_memlock env")
  case (Some e)
  with assms have "r = Inl (RemovingMemlock e)" "es = []" by (auto simp: New_Loader_def)
  then show ?thesis by (rule nothing) (simp add: Some)
next
  case m: None
  obtain r0 es0 where r0: "loadChainscopeObjects env = (r0, es0)" by force
  show ?thesis
  proof (cases r0)
    case (Inl e)
    with assms m r0 load_objects_effects(3) [OF r0 Inl]
    have "r = Inl (LoadingObjects e)" "es = []" by (auto simp: New_Loader_def)
    then show ?thesis by (rule nothing) (simp add: r0 Inl)
  next
    case (Inr objs)
    obtain r1 es1 where r1: "attach_loop env (mandatory (o_programs objs))
        \<lparr>l_objs = objs, l_links = [], l_rd = None\<rparr> = (r1, es1)" by force
    note def = assms [unfolded New_Loader_def m r0 Inr option.case prod.case Let_def sum.case r1]
    from r1 show ?thesis
    proof (cases rule: attach_loop_cases)
      case (failed err lnks)
      with def have "r = Inl err" "es = es0 @ es1" by auto
      with failed r0 Inr m show ?thesis
        by (intro closed_again [of objs es0 err lnks])
          (auto simp: hooks_attach_mandatory)
    next
      case (attached hooks)
      let ?l = "\<lparr>l_objs = objs, l_links = hooks @ bpf_links env objs @ dns_links env objs, l_rd = None\<rparr>"
      have d: "r = fst (open_ring env ?l)"
        "es = es0 @ es1 @ map Opened (bpf_links env objs) @ map Opened (dns_links env objs) @ snd (open_ring env ?l)"
        using def attached(1) by (auto simp: attach_bpf_links attach_dns_links split: prod.splits)
      show ?thesis
      proof (cases "le_reader env (Events (o_maps objs))")
        case (Inl e)
        with d attached r0 \<open>r0 = Inr objs\<close> m show ?thesis
          by (intro closed_again [of objs es0 _ "hooks @ bpf_links env objs @ dns_links env objs"])
            (auto simp: open_ring_def)
      next
        case (Inr rd)
        with d attached r0 \<open>r0 = Inr objs\<close> m show ?thesis
          by (intro ready [of objs es0 hooks rd]) (auto simp: open_ring_def hook_results_def)
      qed
    qed
  qed
qed

lemma New_Loader_failed:
  assumes "New_Loader env = (Inl err, es)"
  shows "closed es \<subseteq># opened es" "live es \<subseteq># opened (snd (loadChainscopeObjects env))"
    "closing_works env \<Longrightarrow> live es = {#}"
proof -
  have "closed es \<subseteq># opened es \<and> live es \<subseteq># opened (snd (loadChainscopeObjects env)) \<and>
      (closing_works env \<longrightarrow> live es = {#})"
    using assms
  proof (cases rule: New_Loader_cases)
    case (closed_again objs es0 lnks err)
    let ?l = "\<lparr>l_objs = objs, l_links = lnks, l_rd = None\<rparr>"
    note es0 = load_objects_effects(1,2) [OF closed_again(1)]
    obtain k where k: "opened (Loader_Close env ?l) = {#}"
      "closed (Loader_Close env ?l) = mset lnks + mset (take k (object_list objs))"
      using Loader_Close_effects [of env ?l] by auto
    have "mset (take k (object_list objs)) \<subseteq># mset (object_list objs)"
      by (metis append_take_drop_id mset_append mset_subset_eq_add_left)
    with k closed_again es0 Loader_Close_all [of env ?l] show ?thesis
      by (auto simp: live_def handles_of_def)
  qed (simp_all add: live_def)
  then show "closed es \<subseteq># opened es" "live es \<subseteq># opened (snd (loadChainscopeObjects env))"
    "closing_works env \<Longrightarrow> live es = {#}" by simp_all
qed

lemma New_Loader_ready:
  assumes "New_Loader env = (Inr l, es)"
  shows "closed es = {#} \<and> opened es = handles_of l"
  using assms
proof (cases rule: New_Loader_cases)
  case (ready objs es0 hooks rd)
  with load_objects_effects(1,2) [OF ready(1)] show ?thesis
    by (auto simp: handles_of_def o_def simp flip: map_append)
qed simp_all

section \<open>Properties of the loader\<close>

text \<open>
  C12. No handle is lost. When \<open>New\<close> fails, every link it attached has been closed exactly once, no reader
  is open, and of the programs and maps all are closed unless a close fails; when it succeeds,
  nothing was closed and the loader holds exactly the handles that were received, so that
  \<open>Close\<close> gives them all back.
\<close>

theorem New_Loader_releases:
  "case New_Loader env of
     (Inl err, es) \<Rightarrow> closed es \<subseteq># opened es \<and> live es \<subseteq># opened (snd (loadChainscopeObjects env)) \<and>
       (closing_works env \<longrightarrow> live es = {#})
   | (Inr l, es) \<Rightarrow> closed es = {#} \<and> opened es = handles_of l \<and>
       (closing_works env \<longrightarrow> live (es @ Loader_Close env l) = {#})"
proof -
  obtain r es where n: "New_Loader env = (r, es)" by force
  have o: "opened (Loader_Close env l) = {#}" for l
    using Loader_Close_effects [of env l] by metis
  show ?thesis
  proof (cases r)
    case (Inl err)
    with New_Loader_failed [of env err es] n show ?thesis by simp
  next
    case (Inr l)
    with New_Loader_ready [of env l es] n o Loader_Close_all [of env l] show ?thesis
      by (simp add: live_def)
  qed
qed

text \<open>A concrete run: an older object file and a machine without the optional hooks.\<close>

definition old_machine :: "(string \<Rightarrow> string + handle) \<Rightarrow> LoaderEnv" where
  "old_machine tracepoint =
     \<lparr>le_memlock = None, le_spec_maps = Inr [''events'', ''proc_tree''],
      le_assign = (\<lambda>names. Inr length), le_tracepoint = (\<lambda>g n p. tracepoint n),
      le_open_exe = (\<lambda>p. Some ''not found''), le_uprobe = (\<lambda>p sym prog. Inl ''no symbol''),
      le_reader = (\<lambda>m. Inr 900), le_close = (\<lambda>h. None), le_read = (\<lambda>p. None),
      le_stat = (\<lambda>p. False)\<rparr>"

definition no_fchmodat :: "string \<Rightarrow> string + handle" where
  "no_fchmodat n =
     (if n = ''sys_enter_fchmodat'' \<or> n = ''sys_enter_bpf'' then Inl ''no such event''
      else Inr (100 + length n))"

lemma New_Loader_old_machine:
  "fst (New_Loader (old_machine no_fchmodat)) =
     Inl (Attaching ''syscalls'' ''sys_enter_fchmodat'' ''no such event'')"
  "opened (snd (New_Loader (old_machine no_fchmodat))) \<noteq> {#}"
  by (simp_all add: New_Loader_def old_machine_def loadChainscopeObjects_def loadChainscope_def
      mandatory_def no_fchmodat_def program_names_def legacy_map_names_def Let_def)

theorem New_Loader_releases_witness:
  "live (snd (New_Loader (old_machine no_fchmodat))) = {#} \<and>
   opened (snd (New_Loader (old_machine no_fchmodat))) \<noteq> {#}"
proof -
  have "closing_works (old_machine no_fchmodat)" by (simp add: closing_works_def old_machine_def)
  then show ?thesis
    using New_Loader_releases [of "old_machine no_fchmodat"] New_Loader_old_machine
    by (simp split: prod.splits)
qed

text \<open>
  C26. When the loader starts, and with what: \<open>New\<close> succeeds exactly if the memory limit can be lifted, the
  objects load, the eight mandatory hooks attach and the ring buffer opens. The links are then
  those of the mandatory hooks, in their order, followed by those of the optional hooks that
  worked; a missing optional hook never keeps the monitor from starting.
\<close>

theorem New_Loader_starts:
  "fst (New_Loader env) = Inr l \<longleftrightarrow>
     le_memlock env = None \<and> fst (loadChainscopeObjects env) = Inr (l_objs l) \<and>
     (\<exists>hooks rd. hook_results env (l_objs l) = map Inr hooks \<and>
        l_links l = hooks @ bpf_links env (l_objs l) @ dns_links env (l_objs l) \<and>
        le_reader env (Events (o_maps (l_objs l))) = Inr rd \<and> l_rd l = Some rd)"
proof -
  have no: "hook_results env objs = map Inr hooks \<Longrightarrow> hooks_attach env objs" for objs hooks
    by (simp add: hooks_attach_def list.pred_map comp_def list.pred_True)
  have inj: "map Inr hs = (map Inr hs' :: (string + handle) list) \<longleftrightarrow> hs = hs'" for hs hs'
    by (rule inj_map_eq_map) (rule inj_Inr)
  obtain r es where n: "New_Loader env = (r, es)" by force
  then show ?thesis
  proof (cases rule: New_Loader_cases)
    case (nothing err)
    then show ?thesis by (auto simp: n)
  next
    case (closed_again objs es0 lnks err)
    then show ?thesis using no by (auto simp: n)
  next
    case (ready objs es0 hooks rd)
    show ?thesis
    proof
      assume "fst (New_Loader env) = Inr l"
      with ready show "le_memlock env = None \<and> fst (loadChainscopeObjects env) = Inr (l_objs l) \<and>
        (\<exists>hooks rd. hook_results env (l_objs l) = map Inr hooks \<and>
          l_links l = hooks @ bpf_links env (l_objs l) @ dns_links env (l_objs l) \<and>
          le_reader env (Events (o_maps (l_objs l))) = Inr rd \<and> l_rd l = Some rd)"
        by (auto simp: n)
    next
      assume "le_memlock env = None \<and> fst (loadChainscopeObjects env) = Inr (l_objs l) \<and>
        (\<exists>hooks rd. hook_results env (l_objs l) = map Inr hooks \<and>
          l_links l = hooks @ bpf_links env (l_objs l) @ dns_links env (l_objs l) \<and>
          le_reader env (Events (o_maps (l_objs l))) = Inr rd \<and> l_rd l = Some rd)"
      with ready show "fst (New_Loader env) = Inr l" by (cases l) (auto simp: n inj)
    qed
  qed
qed

section \<open>Properties of the search for libc\<close>

lemma libc_loop_Some: "libc_loop stat lines = Some p \<Longrightarrow> \<exists>line \<in> set lines. libc_line stat line = Some p"
  by (induction lines) (auto split: option.splits)

lemma libc_line_Some:
  "libc_line stat line = Some p \<Longrightarrow>
     sublist ''libc'' line \<and> sublist ''.so'' line \<and>
     (\<exists>q. q \<in> set (Fields line) \<and> hd q = CHR ''/'' \<and> stat q \<and> p = Clean q)"
  by (auto simp: libc_line_def Contains_iff Let_def intro: exI [of _ "Fields line ! 5"] split: if_splits)

text \<open>
  What \<open>findLibc\<close> returns exists: it is the cleaned form of a path that could be inspected and stands in a
  line of the process map that mentions libc and a shared object, or the first known location
  that could be inspected; and it fails only if no known location can be.
\<close>

theorem findLibc_exists:
  "case findLibc env of
     Some p \<Rightarrow>
       (\<exists>data line q. le_read env ''/proc/self/maps'' = Some data \<and> line \<in> set (Split (CHR 0x0A) data) \<and>
          sublist ''libc'' line \<and> sublist ''.so'' line \<and> q \<in> set (Fields line) \<and> hd q = CHR ''/'' \<and>
          le_stat env q \<and> p = Clean q) \<or>
       (p \<in> set libc_candidates \<and> le_stat env p)
   | None \<Rightarrow> \<not> list_ex (le_stat env) libc_candidates"
proof (cases "libcFromMaps env")
  case None
  then show ?thesis
    by (auto simp: findLibc_def find_Some_iff find_None_iff list_ex_iff split: option.split)
next
  case (Some p)
  then obtain data where d: "le_read env ''/proc/self/maps'' = Some data"
    "libc_loop (le_stat env) (Split (CHR 0x0A) data) = Some p"
    by (auto simp: libcFromMaps_def split: option.splits)
  then obtain line where "line \<in> set (Split (CHR 0x0A) data)" "libc_line (le_stat env) line = Some p"
    using libc_loop_Some by blast
  with libc_line_Some [OF this(2)] d Some show ?thesis by (auto simp: findLibc_def)
qed

text \<open>Fields of visible ASCII characters, separated by a space, are read back.\<close>

definition plain_field :: "string \<Rightarrow> bool" where
  "plain_field f \<longleftrightarrow> f \<noteq> [] \<and> list_all (\<lambda>c. 32 < ord c \<and> ord c < 127) f"

lemma fields_loop_plain:
  "list_all (\<lambda>c. 32 < ord c \<and> ord c < 127) f \<Longrightarrow> fields_loop cur (f @ s) = fields_loop (cur @ f) s"
proof (induction f arbitrary: cur)
  case (Cons c f)
  then have "DecodeRune (c # f @ s) = (ord c, 1)" "\<not> IsSpace (ord c)"
    by (auto simp: DecodeRune_def IsSpace_def)
  with Cons show ?case
    by (subst fields_loop.simps) simp
qed simp

lemma fields_loop_space:
  "fields_loop cur (CHR '' '' # s) = (if cur = [] then [] else [cur]) @ fields_loop [] s"
  by (subst fields_loop.simps) (simp add: DecodeRune_def IsSpace_def ord_def)

lemma Fields_Join: "list_all plain_field fs \<Longrightarrow> Fields (Join '' '' fs) = fs"
  unfolding Fields_def
proof (induction "'' ''" fs rule: Join.induct)
  case (2 f)
  then show ?case
    using fields_loop_plain [of f "[]" "[]"]
    by (simp add: plain_field_def) (simp add: fields_loop.simps)
next
  case (3 f g fs)
  then show ?case
    using fields_loop_plain [of f "[]"]
    by (simp add: plain_field_def fields_loop_space)
qed (simp add: fields_loop.simps)

text \<open>
  Any library with the letters \<open>libc\<close> in its name will do: if \<open>libcap\<close> is mapped before
  \<open>libc\<close>, the DNS probe looks for \<open>getaddrinfo\<close> in \<open>libcap\<close>.
\<close>

lemma libcap_taken_for_libc:
  "libc_loop (\<lambda>p. True)
     (Join '' '' [''7f10'', ''r-xp'', ''00002000'', ''08:01'', ''3932'', ''/usr/lib/libcap.so.2''] # rest) =
   Some ''/usr/lib/libcap.so.2''"
proof -
  let ?fs = "[''7f10'', ''r-xp'', ''00002000'', ''08:01'', ''3932'', ''/usr/lib/libcap.so.2'']"
  have "list_all plain_field ?fs" by (simp add: plain_field_def ord_def)
  then have f: "Fields (Join '' '' ?fs) = ?fs" by (rule Fields_Join)
  have c: "Clean ''/usr/lib/libcap.so.2'' = ''/usr/lib/libcap.so.2''" by code_simp
  have "Contains (Join '' '' ?fs) ''libc''" "Contains (Join '' '' ?fs) ''.so''"
    by (simp_all add: HasPrefix_def)
  then have "libc_line (\<lambda>p. True) (Join '' '' ?fs) = Some ''/usr/lib/libcap.so.2''"
    unfolding libc_line_def f by (simp add: c)
  then show ?thesis by simp
qed

end
