(* ===== verification/GoJsonRead.thy ===== *)
theory GoJsonRead
  imports GoJson
begin

text \<open>
  The decoder of \<open>encoding/json\<close>: \<open>parse_json\<close> is the scanner with the unquoting of strings,
  including escapes, surrogate pairs, the replacement of invalid UTF-8 by U+FFFD and the limit on
  nesting; numbers stay literals until a field asks for a type. The recursion takes fuel, of
  which \<open>2 * length s + 1\<close> is always enough (\<open>p_fuel\<close>).
\<close>

section \<open>\<open>utf8.EncodeRune\<close>\<close>

definition is_surrogate :: "nat \<Rightarrow> bool" where
  "is_surrogate r \<longleftrightarrow> 0xD800 \<le> r \<and> r < 0xE000"

definition EncodeRune :: "nat \<Rightarrow> string" where
  "EncodeRune r =
     (if r < 0x80 then [char_of r]
      else if r < 0x800 then map char_of [0xC0 + r div 64, 0x80 + r mod 64]
      else if is_surrogate r \<or> 0x10FFFF < r then map char_of [0xEF, 0xBF, 0xBD :: nat]
      else if r < 0x10000 then
        map char_of [0xE0 + r div 4096, 0x80 + r div 64 mod 64, 0x80 + r mod 64]
      else map char_of [0xF0 + r div 262144, 0x80 + r div 4096 mod 64, 0x80 + r div 64 mod 64,
                        0x80 + r mod 64])"

text \<open>The string with every invalid byte replaced by U+FFFD.\<close>

function to_valid :: "string \<Rightarrow> string" where
  "to_valid s =
     (if s = [] then []
      else EncodeRune (fst (DecodeRune s)) @ to_valid (drop (snd (DecodeRune s)) s))"
  by pat_completeness auto
termination
proof (relation "measure length")
  fix s :: string
  assume "s \<noteq> []"
  then show "(drop (snd (DecodeRune s)) s, s) \<in> measure length"
    using DecodeRune_width [of s] by simp
qed simp

declare to_valid.simps [simp del]

section \<open>Strings\<close>

definition hex_val :: "char \<Rightarrow> nat option" where
  "hex_val c =
     (let n = ord c in
      if 48 \<le> n \<and> n \<le> 57 then Some (n - 48)
      else if 97 \<le> n \<and> n \<le> 102 then Some (n - 87)
      else if 65 \<le> n \<and> n \<le> 70 then Some (n - 55)
      else None)"

text \<open>The four digits of \<open>\u\<close>.\<close>

definition get4 :: "string \<Rightarrow> nat option" where
  "get4 s =
     (case s of a # b # c # d # r \<Rightarrow>
        (case (hex_val a, hex_val b, hex_val c, hex_val d) of
           (Some a, Some b, Some c, Some d) \<Rightarrow> Some (((a * 16 + b) * 16 + c) * 16 + d)
         | _ \<Rightarrow> None)
      | _ \<Rightarrow> None)"

text \<open>The second half of a surrogate pair, if it follows: the rune of the pair.\<close>

definition surrogate_pair :: "nat \<Rightarrow> string \<Rightarrow> nat option" where
  "surrogate_pair r s =
     (case s of a # b # t \<Rightarrow>
        (if a = CHR 0x5C \<and> b = CHR ''u'' then
           (case get4 t of
              Some r2 \<Rightarrow>
                (if r < 0xDC00 \<and> 0xDC00 \<le> r2 \<and> r2 < 0xE000
                 then Some ((r - 0xD800) * 1024 + (r2 - 0xDC00) + 0x10000) else None)
            | None \<Rightarrow> None)
         else None)
      | _ \<Rightarrow> None)"

definition escape_char :: "char \<Rightarrow> char option" where
  "escape_char e =
     (if e = CHR 0x22 \<or> e = CHR 0x5C \<or> e = CHR ''/'' then Some e
      else if e = CHR ''b'' then Some (CHR 0x08)
      else if e = CHR ''f'' then Some (CHR 0x0C)
      else if e = CHR ''n'' then Some (CHR 0x0A)
      else if e = CHR ''r'' then Some (CHR 0x0D)
      else if e = CHR ''t'' then Some (CHR 0x09)
      else None)"

text \<open>After the opening quote: the decoded string and what follows the closing quote.\<close>

function p_chars :: "string \<Rightarrow> string \<Rightarrow> (string \<times> string) option" where
  "p_chars acc [] = None"
| "p_chars acc (c # t) =
     (if c = CHR 0x22 then Some (acc, t)
      else if c = CHR 0x5C then
        (if t = [] then None
         else if hd t = CHR ''u'' then
           (case get4 (tl t) of
              None \<Rightarrow> None
            | Some r \<Rightarrow>
                (if is_surrogate r then
                   (case surrogate_pair r (drop 5 t) of
                      Some r2 \<Rightarrow> p_chars (acc @ EncodeRune r2) (drop 11 t)
                    | None \<Rightarrow> p_chars (acc @ EncodeRune RuneError) (drop 5 t))
                 else p_chars (acc @ EncodeRune r) (drop 5 t)))
         else
           (case escape_char (hd t) of
              None \<Rightarrow> None
            | Some x \<Rightarrow> p_chars (acc @ [x]) (tl t)))
      else if ord c < 0x20 then None
      else p_chars (acc @ EncodeRune (fst (DecodeRune (c # t))))
             (drop (snd (DecodeRune (c # t))) (c # t)))"
  by pat_completeness auto
termination
proof (relation "measure (\<lambda>(acc, s). length s)")
  fix acc t :: string and c
  show "((acc @ EncodeRune (fst (DecodeRune (c # t))), drop (snd (DecodeRune (c # t))) (c # t)), acc, c # t)
      \<in> measure (\<lambda>(acc, s). length s)"
    using DecodeRune_width [of "c # t"] by simp
qed auto

declare p_chars.simps(2) [simp del]

lemma p_chars_shorter: "p_chars acc s = Some (x, r) \<Longrightarrow> length r < length s"
proof (induction acc s arbitrary: x r rule: p_chars.induct)
  case (2 acc c t)
  have w: "length (drop (snd (DecodeRune (c # t))) (c # t)) < length (c # t)"
    using DecodeRune_width [of "c # t"] by simp
  from "2.prems" show ?case
    using "2.IH" w
    by (subst (asm) p_chars.simps)
      (auto split: if_splits option.splits, fastforce+)
qed simp

section \<open>Values\<close>

datatype jval =
    VNull
  | VBool bool
  | VNum string
  | VStr string
  | VArr "jval list"
  | VObj "(string \<times> jval) list"

definition json_space :: "char \<Rightarrow> bool" where
  "json_space c \<longleftrightarrow> ord c \<in> {0x20, 0x09, 0x0D, 0x0A}"

definition skip_ws :: "string \<Rightarrow> string" where
  "skip_ws s = dropWhile json_space s"

definition json_digit :: "char \<Rightarrow> bool" where
  "json_digit c \<longleftrightarrow> 48 \<le> ord c \<and> ord c \<le> 57"

text \<open>A number literal: sign, integer part, fraction, exponent.\<close>

definition p_digits :: "string \<Rightarrow> (string \<times> string) option" where
  "p_digits s =
     (if s \<noteq> [] \<and> json_digit (hd s) then Some (takeWhile json_digit s, dropWhile json_digit s) else None)"

definition p_int_part :: "string \<Rightarrow> (string \<times> string) option" where
  "p_int_part s = (if s \<noteq> [] \<and> hd s = CHR ''0'' then Some (''0'', tl s) else p_digits s)"

definition p_frac :: "string \<times> string \<Rightarrow> (string \<times> string) option" where
  "p_frac ls =
     (case ls of (lit, s) \<Rightarrow>
        if s \<noteq> [] \<and> hd s = CHR ''.'' then
          map_option (\<lambda>(ds, r). (lit @ ''.'' @ ds, r)) (p_digits (tl s))
        else Some (lit, s))"

definition p_exp :: "string \<times> string \<Rightarrow> (string \<times> string) option" where
  "p_exp ls =
     (case ls of (lit, s) \<Rightarrow>
        if s \<noteq> [] \<and> (hd s = CHR ''e'' \<or> hd s = CHR ''E'') then
          (let sign = (if tl s \<noteq> [] \<and> (hd (tl s) = CHR ''+'' \<or> hd (tl s) = CHR ''-'')
                       then [hd (tl s)] else [])
           in map_option (\<lambda>(ds, r). (lit @ [hd s] @ sign @ ds, r)) (p_digits (drop (length sign) (tl s))))
        else Some (lit, s))"

definition p_number :: "string \<Rightarrow> (string \<times> string) option" where
  "p_number s =
     (let sign = (if s \<noteq> [] \<and> hd s = CHR ''-'' then ''-'' else []) in
      case p_int_part (drop (length sign) s) of
        None \<Rightarrow> None
      | Some (i, r) \<Rightarrow> (case p_frac (sign @ i, r) of None \<Rightarrow> None | Some ls \<Rightarrow> p_exp ls))"

definition max_nesting :: nat where
  "max_nesting = 10000"

text \<open>A string, a literal name or a number; the text is not empty.\<close>

definition p_scalar :: "string \<Rightarrow> (jval \<times> string) option" where
  "p_scalar s =
     (if hd s = CHR 0x22 then map_option (\<lambda>(x, r). (VStr x, r)) (p_chars [] (tl s))
      else if HasPrefix s ''true'' then Some (VBool True, drop 4 s)
      else if HasPrefix s ''false'' then Some (VBool False, drop 5 s)
      else if HasPrefix s ''null'' then Some (VNull, drop 4 s)
      else map_option (\<lambda>(l, r). (VNum l, r)) (p_number s))"

text \<open>The bracket that closes an empty object or array.\<close>

definition closes :: "char \<Rightarrow> string \<Rightarrow> bool" where
  "closes b t \<longleftrightarrow> skip_ws t \<noteq> [] \<and> hd (skip_ws t) = b"

text \<open>The first non-space character decides; \<open>d\<close> counts the open brackets.\<close>

fun p_value :: "nat \<Rightarrow> nat \<Rightarrow> string \<Rightarrow> (jval \<times> string) option"
  and p_elems :: "nat \<Rightarrow> nat \<Rightarrow> string \<Rightarrow> (jval list \<times> string) option"
  and p_members :: "nat \<Rightarrow> nat \<Rightarrow> string \<Rightarrow> ((string \<times> jval) list \<times> string) option" where
  "p_value 0 d s = None"
| "p_value (Suc n) d s =
     (case skip_ws s of
        [] \<Rightarrow> None
      | c # t \<Rightarrow>
          if c = CHR ''{'' then
            (if max_nesting \<le> d then None
             else if closes (CHR ''}'') t then Some (VObj [], tl (skip_ws t))
             else map_option (\<lambda>(ms, r). (VObj ms, r)) (p_members n (Suc d) t))
          else if c = CHR ''['' then
            (if max_nesting \<le> d then None
             else if closes (CHR '']'') t then Some (VArr [], tl (skip_ws t))
             else map_option (\<lambda>(vs, r). (VArr vs, r)) (p_elems n (Suc d) t))
          else p_scalar (c # t))"
| "p_elems 0 d s = None"
| "p_elems (Suc n) d s =
     (case p_value n d s of
        None \<Rightarrow> None
      | Some (v, r) \<Rightarrow>
          (case skip_ws r of
             [] \<Rightarrow> None
           | c # t \<Rightarrow>
               if c = CHR '','' then map_option (\<lambda>(vs, r). (v # vs, r)) (p_elems n d t)
               else if c = CHR '']'' then Some ([v], t)
               else None))"
| "p_members 0 d s = None"
| "p_members (Suc n) d s =
     (case skip_ws s of
        [] \<Rightarrow> None
      | q # t \<Rightarrow>
          if q \<noteq> CHR 0x22 then None
          else case p_chars [] t of
            None \<Rightarrow> None
          | Some (k, r) \<Rightarrow>
              (case skip_ws r of
                 [] \<Rightarrow> None
               | c # t \<Rightarrow>
                   if c \<noteq> CHR '':'' then None
                   else case p_value n d t of
                     None \<Rightarrow> None
                   | Some (v, r) \<Rightarrow>
                       (case skip_ws r of
                          [] \<Rightarrow> None
                        | c # t \<Rightarrow>
                            if c = CHR '','' then
                              map_option (\<lambda>(ms, r). ((k, v) # ms, r)) (p_members n d t)
                            else if c = CHR ''}'' then Some ([(k, v)], t)
                            else None)))"

text \<open>The whole text: one value with nothing but white space around it.\<close>

definition parse_json :: "string \<Rightarrow> jval option" where
  "parse_json s =
     (case p_value (2 * length s + 1) 0 s of
        None \<Rightarrow> None
      | Some (v, r) \<Rightarrow> if skip_ws r = [] then Some v else None)"

section \<open>The fuel is enough\<close>

lemma length_skip_ws: "length (skip_ws s) \<le> length s"
  by (simp add: skip_ws_def length_dropWhile_le)

lemma skip_ws_Cons: "skip_ws s = c # t \<Longrightarrow> length t < length s"
  using length_skip_ws [of s] by simp

lemma p_digits_shorter: "p_digits s = Some (l, r) \<Longrightarrow> length r < length s"
  by (cases s) (auto simp: p_digits_def length_dropWhile_le less_Suc_eq_le split: if_splits)

lemma p_number_shorter: "p_number s = Some (l, r) \<Longrightarrow> length r < length s"
proof -
  assume n: "p_number s = Some (l, r)"
  have i: "length r < length s" if "p_int_part s = Some (l, r)" for s l r
    using that by (cases s) (auto simp: p_int_part_def split: if_splits dest: p_digits_shorter)
  have f: "length r' \<le> length r" if "p_frac (l, r) = Some (l', r')" for l r l' r'
    using that p_digits_shorter [of "tl r"]
    by (cases r) (force simp: p_frac_def split: if_splits)+
  have e: "length r' \<le> length r" if "p_exp (l, r) = Some (l', r')" for l r l' r'
    using that p_digits_shorter [of "tl r"] p_digits_shorter [of "tl (tl r)"]
    by (cases r; cases "tl r") (force simp: p_exp_def Let_def split: if_splits)+
  from n obtain sign i0 r0 ls where
    "p_int_part (drop (length sign) s) = Some (i0, r0)" "p_frac (sign @ i0, r0) = Some ls"
    "p_exp ls = Some (l, r)"
    unfolding p_number_def Let_def by (auto split: option.splits prod.splits)
  then show ?thesis
    using i f e by (cases ls) (metis diff_le_self le_less_trans length_drop less_le_trans order_trans not_le)
qed

lemma p_scalar_shorter: "s \<noteq> [] \<Longrightarrow> p_scalar s = Some (v, r) \<Longrightarrow> length r < length s"
  by (cases s)
    (auto simp: p_scalar_def dest!: p_chars_shorter p_number_shorter split: if_splits)

lemma p_rest:
  "p_value n d s = Some (v, r) \<Longrightarrow> length r < length s"
  "p_elems n d s = Some (vs, r) \<Longrightarrow> length r < length s"
  "p_members n d s = Some (ms, r) \<Longrightarrow> length r < length s"
proof (induction n d s and n d s and n d s arbitrary: v r and vs r and ms r
    rule: p_value_p_elems_p_members.induct)
  case (2 n d s)
  show ?case
  proof (cases "skip_ws s")
    case Nil
    with 2 show ?thesis by simp
  next
    case (Cons c t)
    have t: "length t < length s" using skip_ws_Cons [OF Cons] .
    have "length r \<le> length t"
      using 2 Cons length_skip_ws [of t] p_scalar_shorter [of "c # t"]
      by (auto split: if_splits) fastforce+
    with t show ?thesis by simp
  qed
next
  case (4 n d s)
  then show ?case
    by (auto split: option.splits list.splits if_splits dest!: skip_ws_Cons) fastforce+
next
  case (6 n d s)
  then show ?case
    by (auto split: option.splits list.splits if_splits dest!: skip_ws_Cons p_chars_shorter) fastforce+
qed simp_all

lemma p_value_skip: "skip_ws s = c # t \<Longrightarrow> p_value (Suc n) d s =
  (if c = CHR ''{'' then
            (if max_nesting \<le> d then None
             else if closes (CHR ''}'') t then Some (VObj [], tl (skip_ws t))
             else map_option (\<lambda>(ms, r). (VObj ms, r)) (p_members n (Suc d) t))
          else if c = CHR ''['' then
            (if max_nesting \<le> d then None
             else if closes (CHR '']'') t then Some (VArr [], tl (skip_ws t))
             else map_option (\<lambda>(vs, r). (VArr vs, r)) (p_elems n (Suc d) t))
          else p_scalar (c # t))"
  by (simp only: p_value.simps list.case)


lemma p_fuel:
  "2 * length s < n \<Longrightarrow> 2 * length s < m \<Longrightarrow> p_value n d s = p_value m d s"
  "2 * length s + 1 < n \<Longrightarrow> 2 * length s + 1 < m \<Longrightarrow> p_elems n d s = p_elems m d s"
  "2 * length s < n \<Longrightarrow> 2 * length s < m \<Longrightarrow> p_members n d s = p_members m d s"
proof (induction n d s and n d s and n d s arbitrary: m and m and m
    rule: p_value_p_elems_p_members.induct)
  case (2 n d s)
  obtain m' where m: "m = Suc m'" using "2.prems" by (cases m) auto
  show ?case
  proof (cases "skip_ws s")
    case (Cons c t)
    then have t: "length t < length s" by (rule skip_ws_Cons)
    show ?thesis
    proof (cases "c = CHR ''{'' \<or> c = CHR ''[''")
      case True
      have "p_members n (Suc d) t = p_members m' (Suc d) t"
        if "c = CHR ''{''" "\<not> max_nesting \<le> d" "\<not> closes (CHR ''}'') t"
        using 2 m Cons that t by auto
      moreover have "p_elems n (Suc d) t = p_elems m' (Suc d) t"
        if "c = CHR ''[''" "\<not> max_nesting \<le> d" "\<not> closes (CHR '']'') t"
        using 2 m Cons that t by auto
      ultimately show ?thesis
        using True by (elim disjE) (simp_all add: m p_value_skip [OF Cons] del: p_value.simps)
    next
      case False
      then show ?thesis by (simp add: m p_value_skip [OF Cons] del: p_value.simps)
    qed
  qed (simp add: m)
next
  case (4 n d s)
  obtain m' where m: "m = Suc m'" using "4.prems" by (cases m) auto
  have v: "p_value n d s = p_value m' d s" by (rule 4(1)) (use "4.prems" m in auto)
  show ?case
  proof (cases "p_value n d s")
    case None
    then show ?thesis by (simp add: m v [symmetric])
  next
    case (Some vr)
    obtain v' r where vr: "p_value n d s = Some (v', r)" using Some by (cases vr) auto
    show ?thesis
    proof (cases "skip_ws r")
      case Nil
      then show ?thesis by (simp add: m v [symmetric] vr)
    next
      case (Cons c t)
      have len: "length t < length r" "length r < length s"
        using skip_ws_Cons [OF Cons] p_rest(1) [OF vr] by auto
      have "p_elems n d t = p_elems m' d t" if "c = CHR '',''"
        by (rule 4(2) [OF vr refl Cons that]) (use len "4.prems" m in auto)
      then show ?thesis by (simp add: m v [symmetric] vr Cons)
    qed
  qed
next
  case (6 n d s)
  obtain m' where m: "m = Suc m'" using "6.prems" by (cases m) auto
  show ?case
  proof (cases "skip_ws s")
    case s: (Cons q t0)
    show ?thesis
    proof (cases "q = CHR 0x22")
      case q: True
      show ?thesis
      proof (cases "p_chars [] t0")
        case c: (Some kr)
        obtain k r where k: "p_chars [] t0 = Some (k, r)" using c by (cases kr) auto
        show ?thesis
        proof (cases "skip_ws r")
          case r: (Cons c t)
          have len: "length t + 2 \<le> length s"
            using skip_ws_Cons [OF s] p_chars_shorter [OF k] skip_ws_Cons [OF r] by simp
          show ?thesis
          proof (cases "c = CHR '':''")
            case colon: True
            have "\<not> q \<noteq> CHR 0x22" "\<not> c \<noteq> CHR '':''" using q colon by auto
            note IH = 6(1) [OF s this(1) k refl r this(2)] 6(2) [OF s this(1) k refl r this(2) _ refl]
            have v: "p_value n d t = p_value m' d t" by (rule IH(1)) (use len "6.prems" m in auto)
            show ?thesis
            proof (cases "p_value n d t")
              case vr': (Some vr)
              obtain v' r' where vr: "p_value n d t = Some (v', r')" using vr' by (cases vr) auto
              show ?thesis
              proof (cases "skip_ws r'")
                case r': (Cons c' t')
                have len': "length t' < length t" using skip_ws_Cons [OF r'] p_rest(1) [OF vr] by simp
                have "p_members n d t' = p_members m' d t'" if "c' = CHR '',''"
                  by (rule IH(2) [OF vr r' that]) (use len len' "6.prems" m in auto)
                then show ?thesis using s q k r colon v [symmetric] vr r' by (simp add: m)
              qed (use s q k r colon v [symmetric] vr in \<open>simp add: m\<close>)
            qed (use s q k r colon v [symmetric] in \<open>simp add: m\<close>)
          qed (use s q k r in \<open>simp add: m\<close>)
        qed (use s q k in \<open>simp add: m\<close>)
      qed (use s q in \<open>simp add: m\<close>)
    qed (use s in \<open>simp add: m\<close>)
  qed (simp add: m)
qed auto

lemma DecodeRune_take:
  assumes "DecodeRune s = (r, w)" "2 \<le> w"
  shows "DecodeRune (take w s @ t) = (r, w)"
proof -
  have ne: "s \<noteq> []" using assms by (auto simp: DecodeRune_def)
  obtain sz lo hi where l: "lead_info (ord (s ! 0)) = (sz, lo, hi)" by (cases "lead_info (ord (s ! 0))")
  have sz: "sz = w" "w \<le> length s" "w \<in> {2,3,4}"
    using assms ne l by (auto simp: DecodeRune_def Let_def lead_info_def split: if_splits)
  then show ?thesis
    using assms ne l by (auto simp: DecodeRune_def Let_def nth_append split: if_splits)
qed

section \<open>Reading back what the encoder writes\<close>

lemma EncodeRune_ascii: "ord c < 0x80 \<Longrightarrow> EncodeRune (ord c) = [c]"
  by (simp add: EncodeRune_def ord_def)

lemma p_chars_raw:
  "\<not> ord c < 0x20 \<Longrightarrow> c \<noteq> CHR 0x22 \<Longrightarrow> c \<noteq> CHR 0x5C \<Longrightarrow>
   p_chars acc (c # t) =
     p_chars (acc @ EncodeRune (fst (DecodeRune (c # t)))) (drop (snd (DecodeRune (c # t))) (c # t))"
  by (subst p_chars.simps) simp

lemma p_chars_rune:
  "u \<noteq> [] \<Longrightarrow> \<not> ord (hd u) < 0x80 \<Longrightarrow> DecodeRune u = (r, w) \<Longrightarrow>
   p_chars acc u = p_chars (acc @ EncodeRune r) (drop w u)"
proof (cases u)
  case (Cons c t)
  assume "\<not> ord (hd u) < 0x80" "DecodeRune u = (r, w)"
  moreover from this(1) have "\<not> ord c < 0x20" "c \<noteq> CHR 0x22" "c \<noteq> CHR 0x5C"
    by (auto simp: Cons) (auto simp: ord_def)
  ultimately show ?thesis by (simp add: Cons p_chars_raw)
qed simp

lemma p_chars_escape: "escape_char e = Some x \<Longrightarrow> p_chars acc (CHR 0x5C # e # t) = p_chars (acc @ [x]) t"
  by (subst p_chars.simps) (auto simp: escape_char_def)

lemma p_chars_u:
  "get4 ds = Some r \<Longrightarrow> \<not> is_surrogate r \<Longrightarrow> length ds = 4 \<Longrightarrow>
   p_chars acc (CHR 0x5C # CHR ''u'' # ds @ t) = p_chars (acc @ EncodeRune r) t"
proof -
  assume ds: "get4 ds = Some r" "\<not> is_surrogate r" "length ds = 4"
  then have "get4 (ds @ t) = Some r"
    by (auto simp: get4_def length_Suc_conv eval_nat_numeral split: list.splits)
  with ds show ?thesis by (subst p_chars.simps) simp
qed

lemma hex_val_digit: "n < 16 \<Longrightarrow> hex_val (digit_char n) = Some n"
  by (auto simp: hex_val_def digit_char_def ord_def Let_def)

lemma hex_val_0 [simp]: "hex_val (CHR ''0'') = Some 0" "hex_val (CHR ''2'') = Some 2"
  "hex_val (CHR ''f'') = Some 15" "hex_val (CHR ''d'') = Some 13"
  by (simp_all add: hex_val_def ord_def)

lemma p_chars_json_ascii:
  assumes "ord c < 0x80"
  shows "p_chars acc (json_ascii c @ t) = p_chars (acc @ [c]) t"
proof -
  let ?b = "ord c"
  have d: "DecodeRune (c # t) = (?b, 1)" using assms by (simp add: DecodeRune_def)
  have g: "get4 (''00'' @ hex_byte ?b) = Some ?b"
    using assms by (simp add: get4_def hex_byte_def hex_val_digit)
  have u: "p_chars acc ([CHR 0x5C] @ ''u00'' @ hex_byte ?b @ t) = p_chars (acc @ [c]) t"
    using p_chars_u [OF g, of acc t] assms
    by (simp add: is_surrogate_def hex_byte_def EncodeRune_ascii)
  consider "html_safe ?b" | "\<not> html_safe ?b" "?b \<in> {0x5C, 0x22}"
    | "\<not> html_safe ?b" "?b \<in> {8, 12, 10, 13, 9}" | "\<not> html_safe ?b" "?b \<notin> {0x5C, 0x22, 8, 12, 10, 13, 9}"
    by blast
  then show ?thesis
  proof cases
    case 1
    then have "c \<noteq> CHR 0x22" "c \<noteq> CHR 0x5C" "\<not> ?b < 0x20" by (auto simp: html_safe_def ord_def)
    with 1 d assms show ?thesis by (simp add: json_ascii_def p_chars_raw EncodeRune_ascii)
  next
    case 2
    then have "ord c = ord (CHR 0x5C) \<or> ord c = ord (CHR 0x22)" by (auto simp: ord_def)
    then have "c = CHR 0x5C \<or> c = CHR 0x22" by (simp only: ord_inject)
    then show ?thesis by (auto simp: json_ascii_def html_safe_def ord_def escape_char_def p_chars_escape)
  next
    case 3
    then have "ord c \<in> {ord (CHR 8), ord (CHR 12), ord (CHR 10), ord (CHR 13), ord (CHR 9)}"
      by (simp add: ord_def)
    then have "c \<in> {CHR 8, CHR 12, CHR 10, CHR 13, CHR 9}" by (simp only: ord_inject insert_iff empty_iff)
    then show ?thesis
      by (auto simp: json_ascii_def html_safe_def ord_def escape_char_def p_chars_escape)
  next
    case 4
    with u show ?thesis by (simp add: json_ascii_def Let_def)
  qed
qed

lemma p_chars_json_body:
  "p_chars acc (json_body s @ CHR 0x22 # rest) = Some (acc @ to_valid s, rest)"
proof (induction s arbitrary: acc rule: json_body.induct)
  case (1 s)
  show ?case
  proof (cases "s = []")
    case True
    then show ?thesis by (simp add: json_body.simps to_valid.simps) (subst p_chars.simps, simp)
  next
    case ne: False
    let ?r = "fst (DecodeRune s)" and ?w = "snd (DecodeRune s)"
    let ?rest = "json_body (drop ?w s) @ CHR 0x22 # rest"
    have v: "to_valid s = EncodeRune ?r @ to_valid (drop ?w s)" using ne by (subst to_valid.simps) simp
    show ?thesis
    proof (cases "ord (hd s) < 0x80")
      case a: True
      then have "DecodeRune s = (ord (hd s), 1)" using ne by (simp add: DecodeRune_def hd_conv_nth)
      then show ?thesis
        using ne a "1.IH"(1) [OF ne a]
        by (subst json_body.simps) (simp add: p_chars_json_ascii v EncodeRune_ascii drop_Suc)
    next
      case na: False
      note IH = "1.IH"(2) [OF ne na refl refl]
      have step: "json_body s @ CHR 0x22 # rest =
          (if ?r = RuneError \<and> ?w = 1 then [CHR 0x5C] @ ''ufffd''
           else if ?r = 0x2028 \<or> ?r = 0x2029 then [CHR 0x5C] @ ''u202'' @ [digit_char (?r mod 16)]
           else take ?w s) @ ?rest"
        using ne na by (subst json_body.simps) (simp add: Let_def)
      have "p_chars acc (json_body s @ CHR 0x22 # rest) = p_chars (acc @ EncodeRune ?r) ?rest"
      proof -
        consider "?r = RuneError" "?w = 1" | "\<not> (?r = RuneError \<and> ?w = 1)" "?r = 0x2028 \<or> ?r = 0x2029"
          | "\<not> (?r = RuneError \<and> ?w = 1)" "\<not> (?r = 0x2028 \<or> ?r = 0x2029)" by blast
        then show ?thesis
        proof cases
          case 1
          have "get4 ''fffd'' = Some RuneError" by (simp add: get4_def RuneError_def)
          from p_chars_u [OF this, of acc ?rest] 1 show ?thesis
            by (simp add: step is_surrogate_def RuneError_def)
        next
          case 2
          then have "get4 (''202'' @ [digit_char (?r mod 16)]) = Some ?r"
            by (auto simp: get4_def hex_val_digit)
          from p_chars_u [OF this, of acc ?rest] 2 show ?thesis
            by (auto simp: step is_surrogate_def)
        next
          case 3
          from ne show ?thesis
          proof (cases rule: DecodeRune_cases)
            case (multi r w)
            have t: "DecodeRune (take w s @ ?rest) = (r, w)" using multi(1,2) by (rule DecodeRune_take)
            have "take w s @ ?rest \<noteq> []" "\<not> ord (hd (take w s @ ?rest)) < 0x80"
              using ne multi(2) na by (cases s; cases w; simp)+
            from p_chars_rune [OF this t] show ?thesis using 3 multi by (simp add: step)
          qed (use 3 na in auto)
        qed
      qed
      then show ?thesis by (simp add: IH v)
    qed
  qed
qed

text \<open>Numbers: the literal ends where no digit, point or exponent follows.\<close>

definition num_end :: "string \<Rightarrow> bool" where
  "num_end rest \<longleftrightarrow> rest = [] \<or>
     \<not> json_digit (hd rest) \<and> hd rest \<noteq> CHR ''.'' \<and> hd rest \<noteq> CHR ''e'' \<and> hd rest \<noteq> CHR ''E''"

lemma json_digit_char: "d < 10 \<Longrightarrow> json_digit (digit_char d)"
  by (simp add: json_digit_def digit_char_def ord_def)

lemma json_digit_dec: "list_all json_digit (dec_str n)"
  unfolding dec_str_def
proof (induction "10 :: nat" n rule: itoa.induct)
  case (1 n)
  then show ?case by (subst itoa.simps) (simp add: json_digit_char)
qed

lemma dec_str_zero: "hd (dec_str n) = CHR ''0'' \<Longrightarrow> dec_str n = ''0''"
  unfolding dec_str_def
proof (induction "10 :: nat" n rule: itoa.induct)
  case (1 n)
  show ?case
  proof (cases "n < 10")
    case True
    with 1 show ?thesis by (simp add: itoa.simps)
  next
    case False
    then have i: "itoa 10 n = itoa 10 (n div 10) @ [digit_char (n mod 10)]" by (simp add: itoa.simps)
    with 1 False have "itoa 10 (n div 10) = ''0''" by simp
    then have "digits_val 10 (itoa 10 (n div 10)) = 0" by (simp add: digits_val_def digit_val_def)
    then have "n div 10 = 0" by (simp add: digits_val_itoa)
    with False show ?thesis by simp
  qed
qed

lemma dec_str_ne [simp]: "dec_str n \<noteq> []"
  by (simp add: dec_str_def)

lemma hd_dec_str: "json_digit (hd (dec_str n))" "hd (dec_str n) \<noteq> CHR ''-''"
proof -
  show "json_digit (hd (dec_str n))" using json_digit_dec [of n] by (cases "dec_str n") auto
  moreover have "\<not> json_digit (CHR ''-'')" by (simp add: json_digit_def ord_def)
  ultimately show "hd (dec_str n) \<noteq> CHR ''-''" by metis
qed

lemma p_int_part_dec: "num_end rest \<Longrightarrow> p_int_part (dec_str n @ rest) = Some (dec_str n, rest)"
proof -
  assume r: "num_end rest"
  have h: "hd (dec_str n @ rest) = hd (dec_str n)" by simp
  show ?thesis
  proof (cases "hd (dec_str n) = CHR ''0''")
    case True
    then have "dec_str n = ''0''" by (rule dec_str_zero)
    then show ?thesis by (simp add: p_int_part_def)
  next
    case False
    note hd_dec_str(1) [of n]
    moreover have "takeWhile json_digit (dec_str n @ rest) = dec_str n"
      "dropWhile json_digit (dec_str n @ rest) = rest"
      using json_digit_dec [of n] r by (cases rest; simp add: num_end_def list_all_iff)+
    ultimately show ?thesis using False by (simp add: p_int_part_def p_digits_def)
  qed
qed

lemma p_number_int:
  assumes "num_end rest"
  shows "p_number (int_str i @ rest) = Some (int_str i, rest)"
proof -
  have frac: "p_frac (l, rest) = Some (l, rest)" "p_exp (l, rest) = Some (l, rest)" for l
    using assms by (auto simp: p_frac_def p_exp_def num_end_def)
  show ?thesis
    using hd_dec_str(2) p_int_part_dec [OF assms] frac by (simp add: p_number_def int_str_def Let_def)
qed

lemma p_scalar_int:
  assumes "num_end rest"
  shows "p_scalar (int_str i @ rest) = Some (VNum (int_str i), rest)"
proof -
  note hd_dec_str(1)
  then have h: "int_str i \<noteq> []" "json_digit (hd (int_str i)) \<or> hd (int_str i) = CHR ''-''"
    by (auto simp: int_str_def)
  then obtain c t where c: "int_str i = c # t" "json_digit c \<or> c = CHR ''-''" by (cases "int_str i") auto
  have "c \<noteq> CHR 0x22" "c \<noteq> CHR ''t''" "c \<noteq> CHR ''f''" "c \<noteq> CHR ''n''"
    using c(2) by (auto simp: json_digit_def ord_def)
  then have "p_scalar (c # t @ rest) = map_option (\<lambda>(l, r). (VNum l, r)) (p_number (c # t @ rest))"
    by (simp add: p_scalar_def HasPrefix_def)
  then show ?thesis using p_number_int [OF assms, of i] by (simp add: c(1))
qed

lemma int_str_nat: "int_str (int n) = dec_str n"
  by (simp add: int_str_def)

section \<open>Values\<close>

fun read_back :: "json \<Rightarrow> jval" where
  "read_back JNull = VNull"
| "read_back (JBool b) = VBool b"
| "read_back (JNum n) = VNum (dec_str n)"
| "read_back (JInt i) = VNum (int_str i)"
| "read_back (JStr s) = VStr (to_valid s)"
| "read_back (JArr vs) = VArr (map read_back vs)"
| "read_back (JObj ms) = VObj (map (\<lambda>(k, v). (to_valid k, read_back v)) ms)"

text \<open>The nesting stays within the decoder's limit.\<close>

fun nests :: "nat \<Rightarrow> json \<Rightarrow> bool" where
  "nests d (JArr vs) \<longleftrightarrow> d < max_nesting \<and> (\<forall>v \<in> set vs. nests (Suc d) v)"
| "nests d (JObj ms) \<longleftrightarrow> d < max_nesting \<and> (\<forall>(k, v) \<in> set ms. nests (Suc d) v)"
| "nests d v \<longleftrightarrow> True"

text \<open>A text that every sufficient fuel reads as the value \<open>v\<close>.\<close>

definition reads_as :: "nat \<Rightarrow> string \<Rightarrow> jval \<Rightarrow> bool" where
  "reads_as d t v \<longleftrightarrow>
     (\<forall>n rest. num_end rest \<longrightarrow> 2 * length (t @ rest) < n \<longrightarrow> p_value n d (t @ rest) = Some (v, rest))"

definition spaces :: "string \<Rightarrow> bool" where
  "spaces w \<longleftrightarrow> list_all json_space w"

lemma skip_spaces: "spaces w \<Longrightarrow> skip_ws (w @ s) = skip_ws s"
  by (induction w) (auto simp: spaces_def skip_ws_def)

lemma skip_ws_stop: "\<not> json_space c \<Longrightarrow> skip_ws (c # s) = c # s"
  by (simp add: skip_ws_def)

lemma p_value_spaces: "spaces w \<Longrightarrow> p_value n d (w @ s) = p_value n d s"
  by (cases n) (simp_all add: skip_spaces)

lemma not_space [simp]:
  "\<not> json_space (CHR ''{'')" "\<not> json_space (CHR ''['')" "\<not> json_space (CHR 0x22)"
  "\<not> json_space (CHR '':'')" "\<not> json_space (CHR '','')" "\<not> json_space (CHR ''}'')"
  "\<not> json_space (CHR '']'')" "json_space (CHR '' '')"
  by (simp_all add: json_space_def ord_def)

lemma p_elems_text:
  assumes "ws \<noteq> []" "\<forall>(t, v) \<in> set ws. reads_as d t v" "spaces w" "spaces w'"
  shows "2 * length (w @ Join ('','' @ w) (map fst ws) @ w' @ CHR '']'' # rest) + 1 < n \<Longrightarrow>
    p_elems n d (w @ Join ('','' @ w) (map fst ws) @ w' @ CHR '']'' # rest) = Some (map snd ws, rest)"
  using assms(1,2)
proof (induction ws arbitrary: n rule: list_nonempty_induct)
  case (single x)
  obtain t v where x: "x = (t, v)" by force
  obtain m where n: "n = Suc m" using single by (cases n) auto
  have "num_end (w' @ CHR '']'' # rest)"
    using assms(4) by (cases w') (auto simp: num_end_def spaces_def json_space_def json_digit_def ord_def)
  moreover have "2 * length (t @ w' @ CHR '']'' # rest) < m" using single x n by simp
  ultimately have "p_value m d (t @ w' @ CHR '']'' # rest) = Some (v, w' @ CHR '']'' # rest)"
    using single x by (auto simp: reads_as_def)
  then show ?case
    by (simp add: n x p_value_spaces assms skip_spaces skip_ws_stop)
next
  case (cons x xs)
  obtain t v where x: "x = (t, v)" by force
  obtain y ys where xs: "xs = y # ys" using cons by (cases xs) auto
  let ?tl = "w @ Join ('','' @ w) (map fst xs) @ w' @ CHR '']'' # rest"
  have j: "w @ Join ('','' @ w) (map fst (x # xs)) @ w' @ CHR '']'' # rest = w @ t @ CHR '','' # ?tl"
    by (simp add: x xs)
  note f = cons.prems(1) [unfolded j]
  obtain m where n: "n = Suc m" using f by (cases n) auto
  have "num_end (CHR '','' # ?tl)" by (simp add: num_end_def json_digit_def ord_def)
  moreover have "2 * length (t @ CHR '','' # ?tl) < m" using f n by simp
  ultimately have "p_value m d (t @ CHR '','' # ?tl) = Some (v, CHR '','' # ?tl)"
    using cons x by (auto simp: reads_as_def)
  moreover have "p_elems m d ?tl = Some (map snd xs, rest)"
    using f n cons by (intro cons.IH) auto
  ultimately show ?case
    unfolding j by (simp add: n x p_value_spaces assms skip_ws_stop)
qed

lemma p_members_text:
  assumes "ws \<noteq> []" "\<forall>(k, t, v) \<in> set ws. reads_as d t v" "spaces w" "spaces w'"
  defines "member \<equiv> \<lambda>(k, t, v). json_string k @ '': '' @ t"
  shows "2 * length (w @ Join ('','' @ w) (map member ws) @ w' @ CHR ''}'' # rest) < n \<Longrightarrow>
    p_members n d (w @ Join ('','' @ w) (map member ws) @ w' @ CHR ''}'' # rest) =
      Some (map (\<lambda>(k, t, v). (to_valid k, v)) ws, rest)"
  using assms(1,2)
proof (induction ws arbitrary: n rule: list_nonempty_induct)
  case (single x)
  obtain k t v where x: "x = (k, t, v)" by (cases x)
  obtain m where n: "n = Suc m" using single.prems by (cases n) auto
  have "num_end (w' @ CHR ''}'' # rest)"
    using assms(4) by (cases w') (auto simp: num_end_def spaces_def json_space_def json_digit_def ord_def)
  moreover have "2 * length (t @ w' @ CHR ''}'' # rest) < m"
    using single.prems x n by (simp add: member_def json_string_def)
  ultimately have "p_value m d (t @ w' @ CHR ''}'' # rest) = Some (v, w' @ CHR ''}'' # rest)"
    using single.prems x by (auto simp: reads_as_def)
  then have "p_value m d (CHR '' '' # t @ w' @ CHR ''}'' # rest) = Some (v, w' @ CHR ''}'' # rest)"
    using p_value_spaces [of "'' ''"] by (simp add: spaces_def)
  then show ?case
    by (simp add: n x member_def json_string_def assms(3,4) skip_spaces skip_ws_stop p_chars_json_body)
next
  case (cons x xs)
  obtain k t v where x: "x = (k, t, v)" by (cases x)
  obtain y ys where xs: "xs = y # ys" using cons by (cases xs) auto
  let ?tl = "w @ Join ('','' @ w) (map member xs) @ w' @ CHR ''}'' # rest"
  have j: "w @ Join ('','' @ w) (map member (x # xs)) @ w' @ CHR ''}'' # rest =
      w @ [CHR 0x22] @ json_body k @ [CHR 0x22] @ '': '' @ t @ CHR '','' # ?tl"
    by (simp add: x xs member_def json_string_def)
  note f = cons.prems(1) [unfolded j]
  obtain m where n: "n = Suc m" using f by (cases n) auto
  have "num_end (CHR '','' # ?tl)" by (simp add: num_end_def json_digit_def ord_def)
  moreover have "2 * length (t @ CHR '','' # ?tl) < m" using f n by simp
  ultimately have "p_value m d (t @ CHR '','' # ?tl) = Some (v, CHR '','' # ?tl)"
    using cons.prems x by (auto simp: reads_as_def)
  then have "p_value m d (CHR '' '' # t @ CHR '','' # ?tl) = Some (v, CHR '','' # ?tl)"
    using p_value_spaces [of "'' ''"] by (simp add: spaces_def)
  moreover have "p_members m d ?tl = Some (map (\<lambda>(k, t, v). (to_valid k, v)) xs, rest)"
    using f n cons.prems by (intro cons.IH) auto
  ultimately show ?case
    unfolding j by (simp add: n x skip_spaces assms(3,4) skip_ws_stop p_chars_json_body)
qed

lemma spaces_break: "spaces (json_break k)"
  by (auto simp: spaces_def json_break_def json_space_def ord_def list_all_iff)

lemma reads_scalar:
  assumes "t \<noteq> []" "\<not> json_space (hd t)" "hd t \<noteq> CHR ''{''" "hd t \<noteq> CHR ''[''"
    "\<And>rest. num_end rest \<Longrightarrow> p_scalar (t @ rest) = Some (v, rest)"
  shows "reads_as d t v"
  unfolding reads_as_def
proof (intro allI impI)
  fix n rest
  assume "num_end rest" "2 * length (t @ rest) < n"
  moreover from this obtain m where "n = Suc m" by (cases n) auto
  moreover obtain c u where "t = c # u" using assms(1) by (cases t) auto
  ultimately show "p_value n d (t @ rest) = Some (v, rest)"
    using assms p_value_skip [of "t @ rest" c "u @ rest"] by (simp add: skip_ws_stop)
qed

lemma int_str_hd: "int_str i \<noteq> []" "\<not> json_space (hd (int_str i))" "hd (int_str i) \<noteq> CHR ''{''"
  "hd (int_str i) \<noteq> CHR ''[''"
proof -
  have "json_digit (hd (int_str i)) \<or> hd (int_str i) = CHR ''-''" "int_str i \<noteq> []"
    using hd_dec_str(1) by (auto simp: int_str_def)
  then show "int_str i \<noteq> []" "\<not> json_space (hd (int_str i))" "hd (int_str i) \<noteq> CHR ''{''"
    "hd (int_str i) \<noteq> CHR ''[''"
    by (auto simp: json_digit_def json_space_def ord_def)
qed

lemma closes_text: "spaces w \<Longrightarrow> \<not> json_space c \<Longrightarrow> closes b (w @ c # s) \<longleftrightarrow> c = b"
  by (simp add: closes_def skip_spaces skip_ws_stop)

lemma json_string_hd: "json_string s = CHR 0x22 # json_body s @ [CHR 0x22]"
  by (simp add: json_string_def)

text \<open>No value begins with white space or a closing bracket.\<close>

lemma render_indent_hd:
  "\<exists>c t. render_indent k v = c # t \<and> \<not> json_space c \<and> c \<noteq> CHR '']'' \<and> c \<noteq> CHR ''}''"
proof (cases v)
  case (JNum n)
  show ?thesis using int_str_hd [of "int n"] hd_dec_str(1) [of n]
    by (cases "dec_str n") (auto simp: JNum int_str_nat json_digit_def ord_def)
next
  case (JInt i)
  have "json_digit (hd (int_str i)) \<or> hd (int_str i) = CHR ''-''"
    using hd_dec_str(1) by (auto simp: int_str_def)
  then show ?thesis using int_str_hd [of i]
    by (cases "int_str i") (auto simp: JInt json_digit_def ord_def)
qed (auto simp: json_space_def ord_def json_string_def)

lemma reads_render_indent: "nests d v \<Longrightarrow> reads_as d (render_indent k v) (read_back v)"
proof (induction v arbitrary: d k)
  case JNull
  show ?case by (rule reads_scalar) (auto simp: p_scalar_def HasPrefix_def json_space_def ord_def)
next
  case (JBool b)
  show ?case by (rule reads_scalar) (auto simp: p_scalar_def HasPrefix_def json_space_def ord_def)
next
  case (JNum n)
  have "reads_as d (int_str (int n)) (VNum (int_str (int n)))"
    using int_str_hd by (intro reads_scalar p_scalar_int) auto
  then show ?case by (simp add: int_str_nat)
next
  case (JInt i)
  show ?case using int_str_hd by (auto intro: reads_scalar p_scalar_int)
next
  case (JStr s)
  show ?case
    by (rule reads_scalar) (simp_all add: json_string_def p_scalar_def p_chars_json_body)
next
  case (JArr vs)
  show ?case
    unfolding reads_as_def
  proof (intro allI impI)
    fix n rest
    assume "2 * length (render_indent k (JArr vs) @ rest) < n"
    moreover from this obtain m where n: "n = Suc m" by (cases n) auto
    moreover have depth: "\<not> max_nesting \<le> d" using JArr.prems by simp
    let ?ws = "map (\<lambda>v. (render_indent (Suc k) v, read_back v)) vs"
    let ?w = "json_break (Suc k)" and ?j = "Join ('','' @ json_break (Suc k)) (map (render_indent (Suc k)) vs)"
    have m: "map fst ?ws = map (render_indent (Suc k)) vs" "map snd ?ws = map read_back vs"
      by (simp_all add: comp_def)
    moreover have "\<not> closes (CHR '']'') (?w @ ?j @ json_break k @ CHR '']'' # rest)" if ne: "vs \<noteq> []"
    proof -
      obtain v vs' where vs: "vs = v # vs'" using ne by (cases vs) auto
      obtain c t where "render_indent (Suc k) v = c # t" "\<not> json_space c" "c \<noteq> CHR '']''"
        using render_indent_hd by blast
      then show ?thesis
        by (cases vs') (auto simp: vs closes_text spaces_break)
    qed
    moreover have "p_elems m (Suc d) (?w @ ?j @ json_break k @ CHR '']'' # rest) = Some (map read_back vs, rest)"
      if "vs \<noteq> []" "2 * length (?w @ ?j @ json_break k @ CHR '']'' # rest) + 1 < m"
      using p_elems_text [of ?ws "Suc d" ?w "json_break k" rest m, unfolded m] that JArr
      by (auto simp: spaces_break)
    ultimately show "p_value n d (render_indent k (JArr vs) @ rest) = Some (read_back (JArr vs), rest)"
      using depth by (auto simp: p_value_skip skip_ws_stop closes_def simp del: p_value.simps)
  qed
next
  case (JObj ms)
  show ?case
    unfolding reads_as_def
  proof (intro allI impI)
    fix n rest
    assume "2 * length (render_indent k (JObj ms) @ rest) < n"
    moreover from this obtain m where n: "n = Suc m" by (cases n) auto
    moreover have depth: "\<not> max_nesting \<le> d" using JObj.prems by simp
    let ?ws = "map (\<lambda>(j, v). (j, render_indent (Suc k) v, read_back v)) ms"
    let ?w = "json_break (Suc k)"
    let ?j = "Join ('','' @ json_break (Suc k)) (map (\<lambda>(j, v). json_string j @ '': '' @ render_indent (Suc k) v) ms)"
    have m: "map (\<lambda>(k, t, v). json_string k @ '': '' @ t) ?ws =
        map (\<lambda>(j, v). json_string j @ '': '' @ render_indent (Suc k) v) ms"
      "map (\<lambda>(k, t, v). (to_valid k, v)) ?ws = map (\<lambda>(j, v). (to_valid j, read_back v)) ms"
      by (auto simp: comp_def)
    moreover have "\<not> closes (CHR ''}'') (?w @ ?j @ json_break k @ CHR ''}'' # rest)" if "ms \<noteq> []"
      using that by (cases ms; cases "tl ms") (auto simp: closes_text spaces_break json_string_hd)
    moreover have "p_members m (Suc d) (?w @ ?j @ json_break k @ CHR ''}'' # rest) =
        Some (map (\<lambda>(j, v). (to_valid j, read_back v)) ms, rest)"
      if "ms \<noteq> []" "2 * length (?w @ ?j @ json_break k @ CHR ''}'' # rest) < m"
      using p_members_text [of ?ws "Suc d" ?w "json_break k" rest m, unfolded m] that JObj
      by (force simp: spaces_break)
    ultimately show "p_value n d (render_indent k (JObj ms) @ rest) = Some (read_back (JObj ms), rest)"
      using depth by (auto simp: p_value_skip skip_ws_stop closes_def simp del: p_value.simps)
  qed
qed

text \<open>The decoder reads what the encoder writes, with strings made valid UTF-8.\<close>

lemma parse_render_indent: "nests 0 v \<Longrightarrow> parse_json (render_indent k v) = Some (read_back v)"
proof -
  assume "nests 0 v"
  then have "reads_as 0 (render_indent k v) (read_back v)" by (rule reads_render_indent)
  moreover have "num_end []" by (simp add: num_end_def)
  ultimately have "p_value (2 * length (render_indent k v) + 1) 0 (render_indent k v @ []) = Some (read_back v, [])"
    unfolding reads_as_def by (metis append_Nil2 less_add_one)
  then show ?thesis by (simp add: parse_json_def skip_ws_def)
qed

lemma to_valid_ascii: "list_all (\<lambda>c. ord c < 0x80) s \<Longrightarrow> to_valid s = s"
proof (induction s)
  case (Cons c s)
  then have "DecodeRune (c # s) = (ord c, 1)" by (simp add: DecodeRune_def)
  with Cons show ?case by (subst to_valid.simps) (simp add: EncodeRune_ascii)
qed (simp add: to_valid.simps)

text \<open>Some bytes never occur in valid UTF-8.\<close>

lemma EncodeRune_bytes: "c \<in> set (EncodeRune r) \<Longrightarrow> r \<le> 0x10FFFF \<Longrightarrow> ord c \<noteq> 0xFF"
  by (auto simp: EncodeRune_def ord_def of_char_of split: if_splits)

lemma DecodeRune_bound: "fst (DecodeRune s) \<le> 0x10FFFF"
proof -
  have o: "ord c < 256" for c by (rule ord_less_256)
  have m: "x mod 64 \<le> 63" "x mod 16 \<le> 15" "x mod 32 \<le> 31" for x :: nat by simp_all
  have four: "(b0 mod 8) * 262144 + (b1 mod 64) * 4096 + (b2 mod 64) * 64 + b3 mod 64 \<le> 0x10FFFF"
    if "lead_info b0 = (4, lo, hi)" "lo \<le> b1" "b1 \<le> hi" for b0 b1 b2 b3 lo hi :: nat
  proof -
    have "b0 \<in> {0xF0, 0xF1, 0xF2, 0xF3} \<or> b0 = 0xF4 \<and> b1 \<le> 0x8F \<and> 0x80 \<le> b1"
      using that by (auto simp: lead_info_def split: if_splits)
    then show ?thesis
    proof
      assume "b0 \<in> {0xF0, 0xF1, 0xF2, 0xF3}"
      then have "b0 mod 8 \<le> 3" by auto
      then show ?thesis using m(1) [of b1] m(1) [of b2] m(1) [of b3] by linarith
    next
      assume b: "b0 = 0xF4 \<and> b1 \<le> 0x8F \<and> 0x80 \<le> b1"
      then have "b1 mod 64 \<le> 15" by (auto simp: mod_if)
      then show ?thesis using b m(1) [of b2] m(1) [of b3] by simp
    qed
  qed
  have three: "(b0 mod 16) * 4096 + (b1 mod 64) * 64 + b2 mod 64 \<le> 0x10FFFF" for b0 b1 b2 :: nat
    using m(2) [of b0] m(1) [of b1] m(1) [of b2] by linarith
  have two: "(b0 mod 32) * 64 + b1 mod 64 \<le> 0x10FFFF" for b0 b1 :: nat
    using m(3) [of b0] m(1) [of b1] by linarith
  show ?thesis
    using o [of "s ! 0"] three two four [of "ord (s ! 0)"]
    by (auto simp: DecodeRune_def Let_def RuneError_def lead_info_def split: if_splits)
qed

lemma to_valid_bytes: "c \<in> set (to_valid s) \<Longrightarrow> ord c \<noteq> 0xFF"
proof (induction s rule: to_valid.induct)
  case (1 s)
  then show ?case
    using EncodeRune_bytes [of c "fst (DecodeRune s)"] DecodeRune_bound [of s]
    by (cases "s = []") (auto simp: to_valid.simps [of s] to_valid.simps [of "[]"])
qed

end
