(* ===== verification/Profiles.thy ===== *)
theory Profiles
  imports Baseline GoJsonRead Enricher "HOL-Library.Char_ord" "HOL-Library.List_Lexorder"
begin

text \<open>
  Profiles on disk: \<open>Learner.Save\<close> and \<open>LoadProfile\<close> of \<open>internal/baseline/baseline.go\<close>. A map is
  marshalled with its keys in byte order (\<open>List_Lexorder\<close> over the order of \<open>Char_ord\<close>);
  \<open>decode_profile\<close> is \<open>json.Unmarshal\<close> into a \<open>Profile\<close>: members are matched to the fields up to
  case, unknown ones are skipped, \<open>null\<close> leaves a field as it is or makes the map nil, a value of
  another type is an error. An error makes the result unused, so the first one is enough.
\<close>

section \<open>\<open>Save\<close>\<close>

definition profile_json :: "Profile \<Rightarrow> json" where
  "profile_json p =
     JObj [(''version'', JInt (pf_Version p)), (''created_at'', JStr (pf_CreatedAt p)),
           (''seen'', JObj (map (\<lambda>k. (k, JBool (seen_key p k))) (sorted_list_of_fset (fmdom (pf_Seen p)))))]"

definition profile_text :: "Learner \<Rightarrow> string" where
  "profile_text l = render_indent 0 (profile_json (l_profile l))"

text \<open>\<open>write\<close> is \<open>os.WriteFile\<close>: the error it returns, if any.\<close>

definition Save :: "(string \<Rightarrow> string \<Rightarrow> string option) \<Rightarrow> string \<Rightarrow> Learner \<Rightarrow> string option" where
  "Save write path l = write path (profile_text l)"

section \<open>\<open>json.Unmarshal\<close> into a \<open>Profile\<close>\<close>

datatype unmarshal_error = SyntaxError | TypeError

text \<open>
  \<open>foldName\<close>: ASCII letters in upper case, and the two other runes that fold to an ASCII letter.
\<close>

definition fold_rune :: "nat \<Rightarrow> nat" where
  "fold_rune r =
     (if 97 \<le> r \<and> r \<le> 122 then r - 32 else if r = 0x17F then 83 else if r = 0x212A then 75 else r)"

function fold_name :: "string \<Rightarrow> nat list" where
  "fold_name s =
     (if s = [] then []
      else fold_rune (fst (DecodeRune s)) # fold_name (drop (snd (DecodeRune s)) s))"
  by pat_completeness auto
termination
proof (relation "measure length")
  fix s :: string
  assume "s \<noteq> []"
  then show "(drop (snd (DecodeRune s)) s, s) \<in> measure length"
    using DecodeRune_width [of s] by simp
qed simp

declare fold_name.simps [simp del]

text \<open>An \<open>int\<close> field: a literal without fraction and exponent that fits 64 bits.\<close>

definition int_literal :: "string \<Rightarrow> int option" where
  "int_literal lit =
     (let neg = (hd lit = CHR ''-''); ds = (if neg then tl lit else lit) in
      if list_all json_digit ds then
        (let v = (if neg then - int (digits_val 10 ds) else int (digits_val 10 ds))
         in if - (2 ^ 63) \<le> v \<and> v < 2 ^ 63 then Some v else None)
      else None)"

record decoded =
  dp_Version :: int
  dp_CreatedAt :: string
  dp_Seen :: "(string, bool) fmap option"

fun decode_seen :: "(string \<times> jval) list \<Rightarrow> (string, bool) fmap \<Rightarrow> (string, bool) fmap option" where
  "decode_seen [] m = Some m"
| "decode_seen ((k, v) # ms) m =
     (case v of
        VBool b \<Rightarrow> decode_seen ms (fmupd k b m)
      | VNull \<Rightarrow> decode_seen ms (fmupd k False m)
      | _ \<Rightarrow> None)"

definition decode_member :: "string \<Rightarrow> jval \<Rightarrow> decoded \<Rightarrow> decoded option" where
  "decode_member name v p =
     (if fold_name name = fold_name ''version'' then
        (case v of
           VNum lit \<Rightarrow> map_option (\<lambda>i. p\<lparr>dp_Version := i\<rparr>) (int_literal lit)
         | VNull \<Rightarrow> Some p
         | _ \<Rightarrow> None)
      else if fold_name name = fold_name ''created_at'' then
        (case v of VStr s \<Rightarrow> Some (p\<lparr>dp_CreatedAt := s\<rparr>) | VNull \<Rightarrow> Some p | _ \<Rightarrow> None)
      else if fold_name name = fold_name ''seen'' then
        (case v of
           VObj ms \<Rightarrow>
             map_option (\<lambda>m. p\<lparr>dp_Seen := Some m\<rparr>)
               (decode_seen ms (case dp_Seen p of None \<Rightarrow> fmempty | Some m \<Rightarrow> m))
         | VNull \<Rightarrow> Some (p\<lparr>dp_Seen := None\<rparr>)
         | _ \<Rightarrow> None)
      else Some p)"

fun decode_members :: "(string \<times> jval) list \<Rightarrow> decoded \<Rightarrow> decoded option" where
  "decode_members [] p = Some p"
| "decode_members ((name, v) # ms) p =
     (case decode_member name v p of None \<Rightarrow> None | Some p \<Rightarrow> decode_members ms p)"

definition zero_profile :: decoded where
  "zero_profile = \<lparr>dp_Version = 0, dp_CreatedAt = [], dp_Seen = None\<rparr>"

definition decode_profile :: "string \<Rightarrow> unmarshal_error + decoded" where
  "decode_profile data =
     (case parse_json data of
        None \<Rightarrow> Inl SyntaxError
      | Some (VObj ms) \<Rightarrow>
          (case decode_members ms zero_profile of None \<Rightarrow> Inl TypeError | Some p \<Rightarrow> Inr p)
      | Some VNull \<Rightarrow> Inr zero_profile
      | Some _ \<Rightarrow> Inl TypeError)"

section \<open>\<open>LoadProfile\<close>\<close>

datatype profile_error = ReadingProfile | ParsingProfile unmarshal_error

definition LoadProfile :: "FileSystem \<Rightarrow> string \<Rightarrow> profile_error + Enforcer" where
  "LoadProfile fs path =
     (case fs path of
        None \<Rightarrow> Inl ReadingProfile
      | Some data \<Rightarrow>
          (case decode_profile data of
             Inl err \<Rightarrow> Inl (ParsingProfile err)
           | Inr p \<Rightarrow>
               Inr \<lparr>en_profile =
                 \<lparr>pf_Version = dp_Version p, pf_CreatedAt = dp_CreatedAt p,
                  pf_Seen = (case dp_Seen p of None \<Rightarrow> fmempty | Some m \<Rightarrow> m)\<rparr>\<rparr>))"

section \<open>Reading a saved profile\<close>

lemma fold_name_ascii: "list_all (\<lambda>c. ord c < 0x80) s \<Longrightarrow> fold_name s = map (fold_rune \<circ> ord) s"
proof (induction s)
  case (Cons c s)
  then have "DecodeRune (c # s) = (ord c, 1)" by (simp add: DecodeRune_def)
  with Cons show ?case by (subst fold_name.simps) simp
qed (simp add: fold_name.simps)

lemma field_names:
  "fold_name ''created_at'' \<noteq> fold_name ''version''" "fold_name ''seen'' \<noteq> fold_name ''version''"
  "fold_name ''seen'' \<noteq> fold_name ''created_at''"
  by (simp_all add: fold_name_ascii ord_def fold_rune_def)

lemma field_names_valid:
  "to_valid ''version'' = ''version''" "to_valid ''created_at'' = ''created_at''"
  "to_valid ''seen'' = ''seen''"
  by (simp_all add: to_valid_ascii ord_def)

lemma int_literal_int_str: "- (2 ^ 63) \<le> i \<Longrightarrow> i < 2 ^ 63 \<Longrightarrow> int_literal (int_str i) = Some i"
proof -
  assume i: "- (2 ^ 63) \<le> i" "i < 2 ^ 63"
  have "digits_val 10 (dec_str n) = n" for n by (simp add: dec_str_def digits_val_itoa)
  with i show ?thesis
    using hd_dec_str(2) json_digit_dec by (auto simp: int_literal_def int_str_def Let_def)
qed

lemma decode_seen_bools:
  "decode_seen (map (\<lambda>k. (g k, VBool (f k))) ks) m = Some (fold (\<lambda>k. fmupd (g k) (f k)) ks m)"
  by (induction ks arbitrary: m) auto

lemma lookup_fold_upd:
  "fmlookup (fold (\<lambda>k. fmupd (g k) True) ks m) x = (if x \<in> g ` set ks then Some True else fmlookup m x)"
  by (induction ks arbitrary: m) auto

text \<open>Loading what was saved gives the profile with its strings made valid UTF-8.\<close>

lemma LoadProfile_saved:
  assumes "fs path = Some (profile_text l)"
    and "- (2 ^ 63) \<le> pf_Version (l_profile l)" "pf_Version (l_profile l) < 2 ^ 63"
  shows "LoadProfile fs path =
    Inr \<lparr>en_profile = \<lparr>pf_Version = pf_Version (l_profile l),
        pf_CreatedAt = to_valid (pf_CreatedAt (l_profile l)),
        pf_Seen = fold (\<lambda>k. fmupd (to_valid k) (seen_key (l_profile l) k))
          (sorted_list_of_fset (fmdom (pf_Seen (l_profile l)))) fmempty\<rparr>\<rparr>"
proof -
  let ?p = "l_profile l"
  let ?ks = "sorted_list_of_fset (fmdom (pf_Seen ?p))"
  have "nests 0 (profile_json ?p)" by (auto simp: profile_json_def max_nesting_def)
  then have "parse_json (profile_text l) = Some (read_back (profile_json ?p))"
    by (simp add: profile_text_def parse_render_indent)
  also have "read_back (profile_json ?p) =
      VObj [(''version'', VNum (int_str (pf_Version ?p))), (''created_at'', VStr (to_valid (pf_CreatedAt ?p))),
        (''seen'', VObj (map (\<lambda>k. (to_valid k, VBool (seen_key ?p k))) ?ks))]"
    by (simp add: profile_json_def field_names_valid comp_def)
  finally have "decode_profile (profile_text l) =
      Inr \<lparr>dp_Version = pf_Version ?p, dp_CreatedAt = to_valid (pf_CreatedAt ?p),
        dp_Seen = Some (fold (\<lambda>k. fmupd (to_valid k) (seen_key ?p k)) ?ks fmempty)\<rparr>"
    using assms(2,3)
    by (simp add: decode_profile_def decode_member_def field_names zero_profile_def
        int_literal_int_str decode_seen_bools)
  then show ?thesis by (simp add: LoadProfile_def assms(1))
qed

text \<open>A learned profile maps every key it has to true.\<close>

definition learned :: "ChainEvent list \<Rightarrow> string \<Rightarrow> Learner" where
  "learned evts created = fold Learn evts (NewLearner created)"

lemma learned_snoc: "learned (evts @ [e]) created = Learn e (learned evts created)"
  by (simp add: learned_def)

lemma learned_profile:
  "pf_Version (l_profile (learned evts created)) = 1 \<and>
   pf_CreatedAt (l_profile (learned evts created)) = created \<and>
   fset (fmdom (pf_Seen (l_profile (learned evts created)))) = makeKey ` set evts - {[]} \<and>
   (\<forall>k. k \<in> makeKey ` set evts - {[]} \<longrightarrow> seen_key (l_profile (learned evts created)) k)"
proof (induction evts rule: rev_induct)
  case Nil
  show ?case by (simp add: learned_def NewLearner_def)
next
  case (snoc e evts)
  show ?case
  proof (cases "makeKey e = []")
    case True
    then have "learned (evts @ [e]) created = learned evts created"
      by (simp add: learned_snoc Learn_def)
    with True snoc show ?thesis by auto
  next
    case False
    with snoc show ?thesis
      by (auto simp: learned_snoc Learn_def Let_def seen_key_def)
  qed
qed

lemma saved_profile:
  assumes "fs path = Some (profile_text (learned evts created))"
  shows "\<exists>en. LoadProfile fs path = Inr en \<and>
    (\<forall>e. Enforcer_Check en e = None \<longleftrightarrow>
       makeKey e = [] \<or> (\<exists>x \<in> set evts. makeKey x \<noteq> [] \<and> to_valid (makeKey x) = makeKey e))"
proof -
  let ?l = "learned evts created"
  let ?ks = "sorted_list_of_fset (fmdom (pf_Seen (l_profile ?l)))"
  note p = learned_profile [of evts created]
  have ks: "set ?ks = makeKey ` set evts - {[]}" using p by simp
  have keys: "k \<in> to_valid ` set ?ks \<longleftrightarrow> (\<exists>x \<in> set evts. makeKey x \<noteq> [] \<and> to_valid (makeKey x) = k)" for k
    by (auto simp only: ks image_iff Diff_iff singleton_iff)
  have "fold (\<lambda>k. fmupd (to_valid k) (seen_key (l_profile ?l) k)) ?ks fmempty =
      fold (\<lambda>k. fmupd (to_valid k) True) ?ks fmempty"
    using p ks by (intro fold_cong) auto
  then have "LoadProfile fs path = Inr \<lparr>en_profile = \<lparr>pf_Version = 1, pf_CreatedAt = to_valid created,
      pf_Seen = fold (\<lambda>k. fmupd (to_valid k) True) ?ks fmempty\<rparr>\<rparr>"
    using LoadProfile_saved [of fs path ?l] assms p by simp
  then show ?thesis
    by (simp add: Enforcer_Check_def Let_def seen_key_def lookup_fold_upd keys
        del: sorted_list_of_fset_simps)
qed

section \<open>Properties of profiles on disk\<close>

text \<open>
  C20. A profile survives the disk. Loading the file that a learner saved succeeds, and the enforcer allows
  exactly the events without a key and those whose key is the key of a learned event, after the
  encoder's replacement of invalid UTF-8; so for keys in ASCII it is the profile that was learned.
\<close>

theorem saved_profile_enforces:
  assumes "fs path = Some (profile_text (learned evts created))"
  shows "\<exists>en. LoadProfile fs path = Inr en \<and>
    (\<forall>e. Enforcer_Check en e = None \<longleftrightarrow>
       makeKey e = [] \<or> (\<exists>x \<in> set evts. makeKey x \<noteq> [] \<and> to_valid (makeKey x) = makeKey e))"
  by (rule saved_profile [of fs path, OF assms])

theorem saved_profile_enforces_witness:
  "\<exists>en. LoadProfile (\<lambda>p. Some (profile_text (learned [open_evt EvtFileOpen ''cc1'' ''/src/a.c''] ''now''))) ''p'' = Inr en \<and>
     Enforcer_Check en (open_evt EvtFileOpen ''cc1'' ''/src/a.c'') = None"
proof -
  let ?e = "open_evt EvtFileOpen ''cc1'' ''/src/a.c''"
  have k: "makeKey ?e = ''file|unknown|cc1|/src''" by code_simp
  have "to_valid (makeKey ?e) = makeKey ?e" unfolding k by (simp add: to_valid_ascii ord_def)
  then show ?thesis
    using saved_profile_enforces [of "\<lambda>p. Some (profile_text (learned [?e] ''now''))" "''p''" "[?e]" "''now''"] k
    by fastforce
qed




end
