(* ===== verification/Startup.thy ===== *)
theory Startup
  imports Ci Loader Profiles
begin

text \<open>
  The start of \<open>main\<close> in \<open>cmd/chainscope/main.go\<close>: the dispatch to \<open>chainscope ci\<close>, the flags, and
  what is loaded before the first event is read, with every early exit.
\<close>

section \<open>Start-up\<close>











section \<open>Properties of the start-up\<close>







end
