(* ===== verification/Daemon.thy ===== *)
theory Daemon
  imports Startup
begin

text \<open>
  The three goroutines of \<open>main\<close> in \<open>cmd/chainscope/main.go\<close> that run after the start-up
  (\<open>Startup\<close>): the event loop, the poll of the drop counter and the shut-down that a signal starts.
  Each step of one of them is one rule of \<open>proc_step\<close>; the steps interleave in any order. The
  operations the goroutines share take a mutex or are atomic, so a step is one such operation.
\<close>

section \<open>The goroutines\<close>

text \<open>
  Where the event loop is: it waits for the reader, or it has the alerts of an event and emits
  them one by one, from number \<open>i\<close> on; the flag says that the event had none.
\<close>

datatype loop_pc = Reading | Emitting StepEnv ChainEvent nat bool "Alert list"

text \<open>Where the goroutine is that waits for a signal.\<close>

datatype signal_pc = Waiting | Signalled | ProfileSaved | ReportWritten | LoaderClosed

text \<open>\<open>pr_hist\<close> and \<open>pr_alerts\<close> record what was read and emitted; nothing depends on them.\<close>

record Proc =
  pr_loop :: loop_pc
  pr_state :: State
  pr_signal :: signal_pc
  pr_files :: "(string \<times> string) list"
  pr_done :: bool
  pr_hist :: "(ring_result \<times> StepEnv) list"
  pr_alerts :: "Alert list"

definition proc_start :: "State \<Rightarrow> Proc" where
  "proc_start st =
     \<lparr>pr_loop = Reading, pr_state = st, pr_signal = Waiting, pr_files = [], pr_done = False,
      pr_hist = [], pr_alerts = []\<rparr>"

text \<open>One poll of the drop counter, with the count it read.\<close>

definition poll_drops :: "u64 \<Rightarrow> State \<Rightarrow> State" where
  "poll_drops n st = st\<lparr>st_met := map_option (SetDropped n) (st_met st)\<rparr>"

text \<open>The files the shut-down writes (an error is only reported).\<close>

definition profile_file :: "string \<Rightarrow> Learner option \<Rightarrow> (string \<times> string) list" where
  "profile_file path learner =
     (case learner of
        None \<Rightarrow> []
      | Some l \<Rightarrow> (if path \<noteq> [] then [(path, profile_text l)] else []))"

definition report_file ::
  "((string, sarifRule) fmap \<Rightarrow> (string \<times> sarifRule) list) \<Rightarrow> SARIFWriter option \<Rightarrow>
   (string \<times> string) list" where
  "report_file rng sarif =
     (case sarif of None \<Rightarrow> [] | Some w \<Rightarrow> [(sw_path w, report_text rng w)])"

text \<open>
  \<open>path\<close> is \<open>*learnPath\<close>. Until the loader is closed the event loop takes what the reader
  delivers; afterwards the reader answers that it is closed, and \<open>main\<close> returns. The operations
  the goroutines share take a mutex or are atomic; the learner is touched once in an iteration,
  before the alerts, and the report once for each alert, so finer steps would allow no other
  files.
\<close>

inductive proc_step ::
  "Config \<Rightarrow> ((string, sarifRule) fmap \<Rightarrow> (string \<times> sarifRule) list) \<Rightarrow> string \<Rightarrow> Proc \<Rightarrow> Proc \<Rightarrow> bool"
  for cfg rng path where
  read_error: "pr_loop p = Reading \<Longrightarrow> pr_signal p \<noteq> LoaderClosed \<Longrightarrow> ReadEvent res = Inl err \<Longrightarrow>
    proc_step cfg rng path p (p\<lparr>pr_hist := pr_hist p @ [(res, env)]\<rparr>)"
| read_event: "pr_loop p = Reading \<Longrightarrow> pr_signal p \<noteq> LoaderClosed \<Longrightarrow> ReadEvent res = Inr (Some evt) \<Longrightarrow>
    step_alerts cfg env evt (pr_state p) = (st, alerts) \<Longrightarrow>
    proc_step cfg rng path p
      (p\<lparr>pr_loop := Emitting env evt 0 (alerts = []) alerts, pr_state := st,
         pr_hist := pr_hist p @ [(res, env)]\<rparr>)"
| emit: "pr_loop p = Emitting env evt i none (a # as) \<Longrightarrow>
    proc_step cfg rng path p
      (p\<lparr>pr_loop := Emitting env evt (Suc i) none as,
         pr_state := emit_alert cfg (v_stamp env i) a (pr_state p), pr_alerts := pr_alerts p @ [a]\<rparr>)"
| next_iteration: "pr_loop p = Emitting env evt i none [] \<Longrightarrow>
    proc_step cfg rng path p
      (p\<lparr>pr_loop := Reading,
         pr_state := (if c_verbose cfg \<and> none then write_event cfg (v_stamp env 0) evt (pr_state p)
                      else pr_state p)\<rparr>)"
| finish: "pr_loop p = Reading \<Longrightarrow> pr_signal p = LoaderClosed \<Longrightarrow>
    proc_step cfg rng path p (p\<lparr>pr_done := True\<rparr>)"
| poll: "\<not> pr_done p \<Longrightarrow> proc_step cfg rng path p (p\<lparr>pr_state := poll_drops n (pr_state p)\<rparr>)"
| signal: "pr_signal p = Waiting \<Longrightarrow> proc_step cfg rng path p (p\<lparr>pr_signal := Signalled\<rparr>)"
| save: "pr_signal p = Signalled \<Longrightarrow>
    proc_step cfg rng path p
      (p\<lparr>pr_signal := ProfileSaved, pr_files := pr_files p @ profile_file path (st_learner (pr_state p))\<rparr>)"
| report: "pr_signal p = ProfileSaved \<Longrightarrow>
    proc_step cfg rng path p
      (p\<lparr>pr_signal := ReportWritten, pr_files := pr_files p @ report_file rng (st_sarif (pr_state p))\<rparr>)"
| close: "pr_signal p = ReportWritten \<Longrightarrow> proc_step cfg rng path p (p\<lparr>pr_signal := LoaderClosed\<rparr>)"

inductive_cases proc_stepE: "proc_step cfg rng path p q"

section \<open>Polling does not interfere\<close>

lemma SetDropped_commutes [simp]:
  "RecordEvent (SetDropped n s) = SetDropped n (RecordEvent s)"
  "SetProcTreeSize k (SetDropped n s) = SetDropped n (SetProcTreeSize k s)"
  "RecordAlert r v (SetDropped n s) = SetDropped n (RecordAlert r v s)"
  "SetDropped m (SetDropped n s) = SetDropped m s"
  by (simp_all add: RecordEvent_def SetProcTreeSize_def SetDropped_def RecordAlert_def Let_def)

lemma poll_drops_fields [simp]:
  "st_tree (poll_drops n st) = st_tree st" "st_dedup (poll_drops n st) = st_dedup st"
  "st_learner (poll_drops n st) = st_learner st" "st_sarif (poll_drops n st) = st_sarif st"
  "st_out (poll_drops n st) = st_out st" "poll_drops m (poll_drops n st) = poll_drops m st"
  by (simp_all add: poll_drops_def option.map_comp comp_def)

lemma emit_alert_poll: "emit_alert cfg ts a (poll_drops n st) = poll_drops n (emit_alert cfg ts a st)"
  by (simp add: emit_alert_def poll_drops_def option.map_comp comp_def)

lemma emit_alerts_poll: "emit_alerts cfg env i as (poll_drops n st) = poll_drops n (emit_alerts cfg env i as st)"
  by (induction as arbitrary: i st) (simp_all add: emit_alert_poll)

lemma write_event_poll: "write_event cfg ts evt (poll_drops n st) = poll_drops n (write_event cfg ts evt st)"
  by (simp add: write_event_def poll_drops_def)

lemma step_alerts_poll:
  "step_alerts cfg env evt st = (st', as) \<Longrightarrow>
   step_alerts cfg env evt (poll_drops n st) = (poll_drops n st', as)"
  by (auto simp: step_alerts_def record_event_def track_exec_def learn_event_def detect_def
      poll_drops_def Let_def option.map_comp comp_def split: prod.splits)

section \<open>The invariant\<close>

text \<open>The state when the current iteration is over, and the alerts it still has to emit.\<close>

fun complete :: "Config \<Rightarrow> loop_pc \<Rightarrow> State \<Rightarrow> State" where
  "complete cfg Reading st = st"
| "complete cfg (Emitting env evt i none as) st =
     (let st = emit_alerts cfg env i as st
      in if c_verbose cfg \<and> none then write_event cfg (v_stamp env 0) evt st else st)"

fun pending :: "loop_pc \<Rightarrow> Alert list" where
  "pending Reading = []"
| "pending (Emitting env evt i none as) = as"

lemma complete_poll: "complete cfg lp (poll_drops n st) = poll_drops n (complete cfg lp st)"
  by (cases lp) (simp_all add: Let_def emit_alerts_poll write_event_poll)

text \<open>The learned events and emitted alerts, as prefixes of what the run read.\<close>

definition events_of :: "(ring_result \<times> StepEnv) list \<Rightarrow> ChainEvent list" where
  "events_of reads = map snd (handled reads)"

definition files_of ::
  "Config \<Rightarrow> ((string, sarifRule) fmap \<Rightarrow> (string \<times> sarifRule) list) \<Rightarrow> string \<Rightarrow> State \<Rightarrow>
   ChainEvent list \<Rightarrow> Alert list \<Rightarrow> (string \<times> string) list" where
  "files_of cfg rng path s0 evts as =
     profile_file path (map_option (fold Learn evts) (st_learner s0)) @
     report_file rng (map_option (add_alerts (c_sha256 cfg) as) (st_sarif s0))"

definition files_ok ::
  "Config \<Rightarrow> ((string, sarifRule) fmap \<Rightarrow> (string \<times> sarifRule) list) \<Rightarrow> string \<Rightarrow> State \<Rightarrow> Proc \<Rightarrow> bool" where
  "files_ok cfg rng path s0 p \<longleftrightarrow>
     (case pr_signal p of
        Waiting \<Rightarrow> pr_files p = []
      | Signalled \<Rightarrow> pr_files p = []
      | ProfileSaved \<Rightarrow>
          (\<exists>evts. prefix evts (events_of (pr_hist p)) \<and>
             pr_files p = profile_file path (map_option (fold Learn evts) (st_learner s0)))
      | _ \<Rightarrow>
          (\<exists>evts as. prefix evts (events_of (pr_hist p)) \<and> prefix as (pr_alerts p) \<and>
             pr_files p = files_of cfg rng path s0 evts as))"

definition proc_inv ::
  "Config \<Rightarrow> ((string, sarifRule) fmap \<Rightarrow> (string \<times> sarifRule) list) \<Rightarrow> string \<Rightarrow> State \<Rightarrow> Proc \<Rightarrow> bool" where
  "proc_inv cfg rng path s0 p \<longleftrightarrow>
     (\<exists>n. poll_drops n (complete cfg (pr_loop p) (pr_state p)) =
          poll_drops n (monitor_loop cfg (pr_hist p) s0)) \<and>
     trace_alerts (trace cfg (pr_hist p) s0) = pr_alerts p @ pending (pr_loop p) \<and>
     st_sarif (pr_state p) = map_option (add_alerts (c_sha256 cfg) (pr_alerts p)) (st_sarif s0) \<and>
     st_learner (pr_state p) = map_option (fold Learn (events_of (pr_hist p))) (st_learner s0) \<and>
     list_all (\<lambda>r. ReadEvent (fst r) \<noteq> Inr None) (pr_hist p) \<and>
     files_ok cfg rng path s0 p \<and>
     (pr_done p \<longrightarrow> pr_loop p = Reading \<and> pr_signal p = LoaderClosed)"

lemma loop_append:
  "list_all (\<lambda>r. ReadEvent (fst r) \<noteq> Inr None) xs \<Longrightarrow>
   monitor_loop cfg (xs @ ys) st = monitor_loop cfg ys (monitor_loop cfg xs st) \<and>
   trace cfg (xs @ ys) st = trace cfg xs st @ trace cfg ys (monitor_loop cfg xs st) \<and>
   handled (xs @ ys) = handled xs @ handled ys"
proof (induction xs arbitrary: st)
  case (Cons x xs)
  obtain res env where x: "x = (res, env)" by force
  with Cons.prems Cons.IH show ?case
    by (cases "ReadEvent res"; cases "projr (ReadEvent res)") (auto simp: monitor_loop_simps)
qed simp

lemma trace_alerts_append: "trace_alerts (xs @ ys) = trace_alerts xs @ trace_alerts ys"
  by (simp add: trace_alerts_def)

lemma poll_drops_eq_fields:
  "poll_drops n st = poll_drops n st' \<Longrightarrow>
   st_out st = st_out st' \<and> st_tree st = st_tree st' \<and> st_dedup st = st_dedup st' \<and>
   st_sarif st = st_sarif st' \<and> st_learner st = st_learner st'"
  by (metis poll_drops_fields(1-5))

text \<open>Handling an event from a state that is polled differently.\<close>

lemma step_alerts_same_poll:
  assumes "poll_drops n st = poll_drops n st'" "step_alerts cfg env evt st = (s1, as)"
  obtains s1' where "step_alerts cfg env evt st' = (s1', as)" "poll_drops n s1 = poll_drops n s1'"
proof -
  obtain s1' as' where s1': "step_alerts cfg env evt st' = (s1', as')" by force
  have "(poll_drops n s1, as) = (poll_drops n s1', as')"
    using step_alerts_poll [OF assms(2), of n] step_alerts_poll [OF s1', of n] assms(1) by simp
  with s1' that show thesis by auto
qed

lemma monitor_step_complete:
  "step_alerts cfg env evt st = (s1, as) \<Longrightarrow>
   monitor_step cfg env evt st = complete cfg (Emitting env evt 0 (as = []) as) s1"
  by (simp add: monitor_step_def Let_def)

lemma files_ok_extend:
  assumes "files_ok cfg rng path s0 p" "pr_signal q = pr_signal p" "pr_files q = pr_files p"
    and "prefix (events_of (pr_hist p)) (events_of (pr_hist q))" "prefix (pr_alerts p) (pr_alerts q)"
  shows "files_ok cfg rng path s0 q"
proof -
  note e = prefix_order.trans [OF _ assms(4)] and a = prefix_order.trans [OF _ assms(5)]
  show ?thesis
    using assms(1) unfolding files_ok_def assms(2,3)
    by (cases "pr_signal p") (simp_all, (use e a in blast)+)
qed

lemma proc_inv_start: "proc_inv cfg rng path s0 (proc_start s0)"
  by (simp add: proc_inv_def proc_start_def files_ok_def events_of_def add_alerts_fun option.map_id)

lemma proc_inv_keep:
  assumes "proc_inv cfg rng path s0 p"
    and "complete cfg (pr_loop q) (pr_state q) = complete cfg (pr_loop p) (pr_state p)"
    and "pr_hist q = pr_hist p" "pr_alerts q @ pending (pr_loop q) = pr_alerts p @ pending (pr_loop p)"
    and "st_sarif (pr_state q) = map_option (add_alerts (c_sha256 cfg) (pr_alerts q)) (st_sarif s0)"
    and "st_learner (pr_state q) = st_learner (pr_state p)"
    and "files_ok cfg rng path s0 q" "pr_done q \<longrightarrow> pr_loop q = Reading \<and> pr_signal q = LoaderClosed"
  shows "proc_inv cfg rng path s0 q"
  using assms(1,5,7,8) unfolding proc_inv_def assms(2,3,4,6) by blast

lemma proc_inv_step:
  assumes inv: "proc_inv cfg rng path s0 p" and step: "proc_step cfg rng path p q"
  shows "proc_inv cfg rng path s0 q"
  using step
proof cases
  case (read_error res err env)
  from inv read_error(2) loop_append [of "pr_hist p" cfg "[(res, env)]" s0] read_error(4)
  have "monitor_loop cfg (pr_hist q) s0 = monitor_loop cfg (pr_hist p) s0"
    "trace cfg (pr_hist q) s0 = trace cfg (pr_hist p) s0" "events_of (pr_hist q) = events_of (pr_hist p)"
    by (simp_all add: proc_inv_def read_error(1) monitor_loop_simps events_of_def)
  moreover have "files_ok cfg rng path s0 q"
    by (rule files_ok_extend [of _ _ _ _ p])
      (use inv read_error calculation in \<open>simp_all add: proc_inv_def\<close>)
  ultimately show ?thesis using inv read_error by (simp add: proc_inv_def)
next
  case (read_event res evt env st alerts)
  let ?s = "monitor_loop cfg (pr_hist p) s0"
  obtain n where n: "poll_drops n (pr_state p) = poll_drops n ?s"
    using inv read_event(2) by (auto simp: proc_inv_def)
  obtain st' where st': "step_alerts cfg env evt ?s = (st', alerts)" "poll_drops n st = poll_drops n st'"
    using step_alerts_same_poll [OF n read_event(5)] .
  have h: "list_all (\<lambda>r. ReadEvent (fst r) \<noteq> Inr None) (pr_hist p)" using inv by (simp add: proc_inv_def)
  note app = loop_append [OF h, of cfg "[(res, env)]" s0]
  have q: "monitor_loop cfg (pr_hist q) s0 = monitor_step cfg env evt ?s"
    "trace_alerts (trace cfg (pr_hist q) s0) = trace_alerts (trace cfg (pr_hist p) s0) @ alerts"
    "events_of (pr_hist q) = events_of (pr_hist p) @ [evt]"
    using app read_event(4) st'(1)
    by (simp_all add: read_event(1) monitor_loop_simps events_of_def trace_alerts_append)
  let ?L = "Emitting env evt 0 (alerts = []) alerts"
  have "poll_drops n (complete cfg ?L st) = poll_drops n (complete cfg ?L st')"
    by (simp only: complete_poll [symmetric] st'(2))
  then have "poll_drops n (complete cfg (pr_loop q) (pr_state q)) = poll_drops n (monitor_loop cfg (pr_hist q) s0)"
    unfolding q(1) monitor_step_complete [OF st'(1)] by (simp add: read_event(1))
  moreover have "files_ok cfg rng path s0 q"
    by (rule files_ok_extend [of _ _ _ _ p])
      (use inv in \<open>simp_all add: proc_inv_def q(3)\<close>, simp_all add: read_event(1))
  moreover have "st_sarif st = st_sarif (pr_state p)" "st_learner st = map_option (Learn evt) (st_learner (pr_state p))"
    using step_alerts_state [OF read_event(5)] by simp_all
  ultimately show ?thesis
    using inv read_event(2-4) h
    by (auto simp: proc_inv_def q option.map_comp comp_def) (auto simp: read_event(1) option.map_comp comp_def)
next
  case (emit env evt i none a as)
  show ?thesis
  proof (rule proc_inv_keep [OF inv])
    show "files_ok cfg rng path s0 q"
      by (rule files_ok_extend [of _ _ _ _ p]) (use inv in \<open>simp_all add: proc_inv_def emit\<close>)
    show "st_sarif (pr_state q) = map_option (add_alerts (c_sha256 cfg) (pr_alerts q)) (st_sarif s0)"
      using inv
      by (simp add: proc_inv_def emit(1) emit_alert_def add_alerts_append add_alerts_fun option.map_comp)
    show "pr_done q \<longrightarrow> pr_loop q = Reading \<and> pr_signal q = LoaderClosed"
      using inv by (simp add: proc_inv_def emit)
  qed (simp_all add: emit Let_def emit_alert_def)
next
  case (next_iteration env evt i none)
  show ?thesis
  proof (rule proc_inv_keep [OF inv])
    show "files_ok cfg rng path s0 q"
      by (rule files_ok_extend [of _ _ _ _ p]) (use inv in \<open>simp_all add: proc_inv_def next_iteration\<close>)
    show "st_sarif (pr_state q) = map_option (add_alerts (c_sha256 cfg) (pr_alerts q)) (st_sarif s0)"
      using inv by (simp add: proc_inv_def next_iteration(1) write_event_def)
    show "pr_done q \<longrightarrow> pr_loop q = Reading \<and> pr_signal q = LoaderClosed"
      using inv by (simp add: proc_inv_def next_iteration)
  qed (simp_all add: next_iteration Let_def write_event_def)
next
  case finish
  have "files_ok cfg rng path s0 q"
    by (rule files_ok_extend [of _ _ _ _ p]) (use inv in \<open>simp_all add: proc_inv_def finish\<close>)
  with inv finish show ?thesis by (simp add: proc_inv_def)
next
  case (poll n)
  obtain m where m: "poll_drops m (complete cfg (pr_loop p) (pr_state p)) =
      poll_drops m (monitor_loop cfg (pr_hist p) s0)" using inv by (auto simp: proc_inv_def)
  have "poll_drops m (complete cfg (pr_loop q) (pr_state q)) = poll_drops m (monitor_loop cfg (pr_hist q) s0)"
    using m by (simp add: poll(1) complete_poll)
  moreover have "files_ok cfg rng path s0 q"
    by (rule files_ok_extend [of _ _ _ _ p]) (use inv in \<open>simp_all add: proc_inv_def poll(1)\<close>)
  ultimately show ?thesis using inv poll by (auto simp: proc_inv_def)
next
  case signal
  then have "files_ok cfg rng path s0 q" "\<not> pr_done p" using inv by (auto simp: proc_inv_def files_ok_def)
  then show ?thesis using inv signal by (auto simp: proc_inv_def)
next
  case save
  then have "files_ok cfg rng path s0 q" "\<not> pr_done p" using inv by (auto simp: proc_inv_def files_ok_def)
  then show ?thesis using inv save by (auto simp: proc_inv_def)
next
  case report
  then have "files_ok cfg rng path s0 q" "\<not> pr_done p"
    using inv by (auto simp: proc_inv_def files_ok_def files_of_def)
  then show ?thesis using inv report by (auto simp: proc_inv_def)
next
  case close
  then have "files_ok cfg rng path s0 q" "\<not> pr_done p" using inv by (auto simp: proc_inv_def files_ok_def)
  then show ?thesis using inv close by (auto simp: proc_inv_def)
qed

lemma proc_inv_run: "(proc_step cfg rng path)\<^sup>*\<^sup>* (proc_start s0) p \<Longrightarrow> proc_inv cfg rng path s0 p"
  by (induction rule: rtranclp_induct) (auto intro: proc_inv_start proc_inv_step)

lemma proc_invD:
  assumes "proc_inv cfg rng path s0 p"
  shows "\<exists>n. poll_drops n (complete cfg (pr_loop p) (pr_state p)) =
      poll_drops n (monitor_loop cfg (pr_hist p) s0)"
    and "trace_alerts (trace cfg (pr_hist p) s0) = pr_alerts p @ pending (pr_loop p)"
    and "files_ok cfg rng path s0 p"
    and "pr_done p \<longrightarrow> pr_loop p = Reading \<and> pr_signal p = LoaderClosed"
  using assms unfolding proc_inv_def by blast+

text \<open>An iteration can always be brought to its end.\<close>

lemma emit_pending:
  "pr_loop p = Emitting env evt i none as \<Longrightarrow>
   (proc_step cfg rng path)\<^sup>*\<^sup>* p
     (p\<lparr>pr_loop := Reading, pr_state := complete cfg (pr_loop p) (pr_state p), pr_alerts := pr_alerts p @ as\<rparr>)"
proof (induction as arbitrary: p i)
  case Nil
  have "proc_step cfg rng path p (p\<lparr>pr_loop := Reading, pr_state := complete cfg (pr_loop p) (pr_state p)\<rparr>)"
    using proc_step.next_iteration [OF Nil, of cfg rng path] by (simp add: Nil Let_def)
  then show ?case by simp
next
  case (Cons a as)
  let ?p = "p\<lparr>pr_loop := Emitting env evt (Suc i) none as,
    pr_state := emit_alert cfg (v_stamp env i) a (pr_state p), pr_alerts := pr_alerts p @ [a]\<rparr>"
  have "proc_step cfg rng path p ?p" by (rule proc_step.emit [OF Cons.prems])
  also have "(proc_step cfg rng path)\<^sup>*\<^sup>* ?p (?p\<lparr>pr_loop := Reading,
      pr_state := complete cfg (pr_loop ?p) (pr_state ?p), pr_alerts := pr_alerts ?p @ as\<rparr>)"
    by (rule Cons.IH) simp
  finally (converse_rtranclp_into_rtranclp) show ?case by (simp add: Cons.prems)
qed

section \<open>Properties of the process\<close>

lemma files_at_end:
  assumes "(proc_step cfg rng path)\<^sup>*\<^sup>* (proc_start (start_state learner sarif met)) p" "pr_done p"
  shows "\<exists>evts as.
    prefix evts (events_of (pr_hist p)) \<and>
    prefix as (trace_alerts (trace cfg (pr_hist p) (start_state learner sarif met))) \<and>
    pr_files p = profile_file path (map_option (fold Learn evts) learner) @
      report_file rng (map_option (add_alerts (c_sha256 cfg) as) sarif)"
proof -
  let ?s = "start_state learner sarif met"
  note inv = proc_invD [OF proc_inv_run [OF assms(1)]]
  have r: "pr_loop p = Reading" "pr_signal p = LoaderClosed" using inv(4) assms(2) by simp_all
  have "st_learner ?s = learner" "st_sarif ?s = sarif" by (simp_all add: start_state_def)
  then show ?thesis
    using inv(2,3) unfolding files_ok_def files_of_def r signal_pc.case pending.simps by auto
qed

text \<open>
  C9. What is on disk when the process ends, however the event loop, the poll and the shut-down interleave: one
  profile with a prefix of the events that were handled and one report with a prefix of the
  alerts, in this order and only if they were asked for; while the lines printed are those of
  the whole run.
\<close>

theorem shutdown_files:
  assumes "(proc_step cfg rng path)\<^sup>*\<^sup>* (proc_start (start_state learner sarif met)) p" "pr_done p"
  shows "\<exists>evts as.
    prefix evts (events_of (pr_hist p)) \<and>
    prefix as (trace_alerts (trace cfg (pr_hist p) (start_state learner sarif met))) \<and>
    pr_files p = profile_file path (map_option (fold Learn evts) learner) @
      report_file rng (map_option (add_alerts (c_sha256 cfg) as) sarif) \<and>
    st_out (pr_state p) = trace_lines cfg (trace cfg (pr_hist p) (start_state learner sarif met))"
proof -
  let ?s = "start_state learner sarif met"
  note inv = proc_invD [OF proc_inv_run [OF assms(1)]]
  have r: "pr_loop p = Reading" using inv(4) assms(2) by simp
  obtain n where "poll_drops n (pr_state p) = poll_drops n (monitor_loop cfg (pr_hist p) ?s)"
    using inv(1) unfolding r complete.simps ..
  then have "st_out (pr_state p) = st_out (monitor_loop cfg (pr_hist p) ?s)"
    using poll_drops_eq_fields by blast
  then have "st_out (pr_state p) = trace_lines cfg (trace cfg (pr_hist p) ?s)"
    by (simp add: loop_out) (simp add: start_state_def)
  with files_at_end [OF assms] show ?thesis by blast
qed



section \<open>An alert during the shut-down\<close>

text \<open>
  A run with a report, in which a tracked process loads a BPF program between the writing of the
  report and the closing of the loader.
\<close>

definition late_start :: Proc where
  "late_start = proc_start (start_state None (Some (NewSARIFWriter ''r.sarif'')) None)"

lemma forged_alert: "\<exists>a. Check pr d forged_event = [a]"
proof -
  have "verdicts (Check pr d forged_event) = [(''bpf-prog-load'', SevCritical)]"
    by (simp add: verdicts_Check rule_table_def Let_def forged_event_def zero_event_def)
  then show ?thesis by (cases "Check pr d forged_event") (auto simp: verdicts_def)
qed

lemma fresh_alert:
  assumes "st_dedup st = NewDeduplicator dedupTTL" "c_enforcer cfg = None"
    and "step_alerts cfg env forged_event st = (st', as)"
  shows "as \<noteq> []"
proof -
  obtain out where o: "Filter (v_now env) (Check (c_pr cfg) \<lparr>d_tree = st_tree st', d_policy = c_policy cfg\<rparr>
      forged_event) (st_dedup st) = (st_dedup st', out)" "as = enrich_alerts (st_tree st') forged_event (out @ enforce cfg forged_event)"
    using step_detect [OF assms(3)] .
  obtain a where a: "Check (c_pr cfg) \<lparr>d_tree = st_tree st', d_policy = c_policy cfg\<rparr> forged_event = [a]"
    using forged_alert by blast
  have d: "dedup_ok dedupTTL (st_dedup st)" using dedupTTL_ok by (simp add: assms(1) dedup_ok_New)
  have "last_seen (st_dedup st) k = None" for k
    by (simp add: assms(1) last_seen_def NewDeduplicator_def)
  then have "dedup_key ` set out = {dedup_key a}" using Filter_spec(4) [OF d o(1)] by (auto simp: a)
  then show ?thesis by (auto simp: o(2) enrich_alerts_map)
qed

lemma late_run:
  obtains p a as where "(proc_step plain_config rng [])\<^sup>*\<^sup>* late_start p" "pr_done p"
    "pr_files p = [(''r.sarif'', report_text rng (NewSARIFWriter ''r.sarif''))]"
    "pr_alerts p = a # as" "st_out (pr_state p) \<noteq> []"
proof -
  let ?s0 = "start_state None (Some (NewSARIFWriter ''r.sarif'')) None"
  define f where "f = report_file rng (st_sarif ?s0)"
  define p3 where "p3 = late_start\<lparr>pr_signal := ReportWritten, pr_files := f\<rparr>"
  have f: "f = [(''r.sarif'', report_text rng (NewSARIFWriter ''r.sarif''))]"
    by (simp add: f_def report_file_def start_state_def NewSARIFWriter_def)
  have l: "st_learner ?s0 = None" by (simp add: start_state_def)
  have s1: "proc_step plain_config rng [] late_start (late_start\<lparr>pr_signal := Signalled\<rparr>)"
    by (rule proc_step.signal) (simp add: late_start_def proc_start_def)
  have s2: "proc_step plain_config rng [] (late_start\<lparr>pr_signal := Signalled\<rparr>) (late_start\<lparr>pr_signal := ProfileSaved\<rparr>)"
    using proc_step.save [of "late_start\<lparr>pr_signal := Signalled\<rparr>" plain_config rng "[]"]
    by (simp add: late_start_def proc_start_def l profile_file_def)
  have s3: "proc_step plain_config rng [] (late_start\<lparr>pr_signal := ProfileSaved\<rparr>) p3"
    using proc_step.report [of "late_start\<lparr>pr_signal := ProfileSaved\<rparr>" plain_config rng "[]"]
    by (simp add: late_start_def proc_start_def p3_def f_def)
  from s1 s2 s3 have run3: "(proc_step plain_config rng [])\<^sup>*\<^sup>* late_start p3"
    by (meson converse_rtranclp_into_rtranclp rtranclp.rtrancl_refl)
  obtain st as where st: "step_alerts plain_config (at_time 0) forged_event (pr_state p3) = (st, as)" by force
  have ne: "as \<noteq> []"
    by (rule fresh_alert [OF _ _ st]) (simp_all add: p3_def late_start_def proc_start_def start_state_def plain_config_def)
  have ev: "ReadEvent (RingRecord (encode_event forged_event)) = Inr (Some forged_event)"
    by (simp add: ReadEvent_encoded forged_event_def wf_event_def zero_event_def)
  define p4 where "p4 = p3\<lparr>pr_loop := Emitting (at_time 0) forged_event 0 (as = []) as, pr_state := st,
    pr_hist := pr_hist p3 @ [(RingRecord (encode_event forged_event), at_time 0)]\<rparr>"
  have s4: "proc_step plain_config rng [] p3 p4"
    unfolding p4_def by (rule proc_step.read_event [OF _ _ ev st])
      (simp_all add: p3_def late_start_def proc_start_def)
  let ?p5 = "p4\<lparr>pr_loop := Reading, pr_state := complete plain_config (pr_loop p4) (pr_state p4),
    pr_alerts := pr_alerts p4 @ as\<rparr>"
  have "(proc_step plain_config rng [])\<^sup>*\<^sup>* p4 ?p5" by (rule emit_pending) (simp add: p4_def)
  with s4 have run5: "(proc_step plain_config rng [])\<^sup>*\<^sup>* p3 ?p5" by (rule converse_rtranclp_into_rtranclp)
  have "proc_step plain_config rng [] ?p5 (?p5\<lparr>pr_signal := LoaderClosed\<rparr>)"
    by (rule proc_step.close) (simp add: p4_def p3_def)
  moreover have "proc_step plain_config rng [] (?p5\<lparr>pr_signal := LoaderClosed\<rparr>)
      (?p5\<lparr>pr_signal := LoaderClosed, pr_done := True\<rparr>)"
    using proc_step.finish [of "?p5\<lparr>pr_signal := LoaderClosed\<rparr>" plain_config rng "[]"] by simp
  ultimately have "(proc_step plain_config rng [])\<^sup>*\<^sup>* late_start (?p5\<lparr>pr_signal := LoaderClosed, pr_done := True\<rparr>)"
    using run3 run5 by (meson rtranclp.rtrancl_into_rtrancl rtranclp_trans)
  moreover obtain a as' where as: "as = a # as'" using ne by (cases as) auto
  moreover have "st_out (complete plain_config (pr_loop p4) (pr_state p4)) \<noteq> []"
    using as by (simp add: p4_def emit_alerts_out emit_alert_def Let_def plain_config_def)
  ultimately show thesis
    by (intro that [of "?p5\<lparr>pr_signal := LoaderClosed, pr_done := True\<rparr>" a as'])
      (simp_all add: p4_def p3_def f late_start_def proc_start_def)
qed

text \<open>
  C28. So a report can miss an alert that was printed: the process can end with a report that has no result
  although an alert of the run was written out.
\<close>

theorem report_misses_alert:
  "\<exists>p. (proc_step plain_config rng [])\<^sup>*\<^sup>* late_start p \<and> pr_done p \<and>
     pr_files p = [(''r.sarif'', report_text rng (NewSARIFWriter ''r.sarif''))] \<and>
     pr_alerts p \<noteq> [] \<and> st_out (pr_state p) \<noteq> []"
proof -
  obtain p a as where "(proc_step plain_config rng [])\<^sup>*\<^sup>* late_start p" "pr_done p"
    "pr_files p = [(''r.sarif'', report_text rng (NewSARIFWriter ''r.sarif''))]"
    "pr_alerts p = a # as" "st_out (pr_state p) \<noteq> []" using late_run .
  then show ?thesis by (intro exI [of _ p]) simp
qed

theorem shutdown_files_witness:
  "\<exists>p :: Proc. pr_done p \<and> (\<exists>as. prefix as (trace_alerts (trace plain_config (pr_hist p)
      (start_state None (Some (NewSARIFWriter ''r.sarif'')) None))) \<and>
    pr_files p = report_file (\<lambda>_. []) (Some (add_alerts (c_sha256 plain_config) as (NewSARIFWriter ''r.sarif''))))"
proof -
  obtain p a as where p: "(proc_step plain_config (\<lambda>_. []) [])\<^sup>*\<^sup>* late_start p" "pr_done p"
    using late_run [of "\<lambda>_. []"] by metis
  from shutdown_files [OF p(1) [unfolded late_start_def] p(2)]
  obtain as where as: "prefix as (trace_alerts (trace plain_config (pr_hist p)
      (start_state None (Some (NewSARIFWriter ''r.sarif'')) None)))"
    "pr_files p = report_file (\<lambda>_. []) (Some (add_alerts (c_sha256 plain_config) as (NewSARIFWriter ''r.sarif'')))"
    unfolding profile_file_def option.map option.case append_Nil by blast
  show ?thesis by (rule exI [of _ p], rule conjI [OF p(2)], rule exI [of _ as], rule conjI [OF as])
qed

section \<open>A learning run and an enforcing run\<close>











end
