(* ===== verification/Probes.thy ===== *)
theory Probes
  imports Wire
begin

text \<open>
  The eBPF programs of \<open>bpf/chainscope.c\<close>: the classification of names and paths, and one
  definition per hook. The state is that of the maps and of the ring buffer (\<open>Kernel\<close>); a hook runs
  in a \<open>Task\<close>, which holds what the helpers of the kernel answer. A helper that reads user
  memory fails on an unmapped address; the destination is then zeroed. A hash map that is full
  refuses a new key, and the programs ignore that. The scratch buffer of \<open>trace_execve\<close> is cleared
  before each use and is not part of the state.

  \<open>reserve_or_drop\<close> is an argument of the hooks: the source calls itself where its comment says
  that it reserves a slot, so it is modelled twice, as written (\<open>reserve_or_drop\<close>, which never
  returns) and as described (\<open>reserve_slot\<close>). The locale \<open>slot_reserve\<close> is what the hooks need of
  either.
\<close>

section \<open>Maps and tasks\<close>

record Kernel =
  k_proc_tree :: "(u32, ProcInfo) fmap"
  k_saved_execs :: "(u32, ProcInfo) fmap"
  k_drop_count :: u64
  k_events :: "byte list list"

definition boot :: Kernel where
  "boot = \<lparr>k_proc_tree = fmempty, k_saved_execs = fmempty, k_drop_count = 0, k_events = []\<rparr>"

text \<open>\<open>bpf_map_update_elem\<close> with \<open>BPF_ANY\<close> on a hash map of \<open>cap\<close> entries.\<close>

definition map_update :: "nat \<Rightarrow> 'k \<Rightarrow> 'v \<Rightarrow> ('k, 'v) fmap \<Rightarrow> ('k, 'v) fmap" where
  "map_update cap k v m = (if k |\<in>| fmdom m \<or> fcard (fmdom m) < cap then fmupd k v m else m)"

definition proc_tree_cap :: nat where "proc_tree_cap = 10240"
definition saved_execs_cap :: nat where "saved_execs_cap = 1024"

text \<open>
  \<open>tk_mem\<close> is the memory of the process, \<open>tk_mem2\<close> what it is at a second read of the same place
  (only \<open>trace_connect\<close> has one); \<open>tk_stdin\<close> is \<open>i_mode\<close> of the inode of descriptor 0, \<open>None\<close> if a
  pointer on the way to it is null; \<open>tk_stack\<close> is what follows \<open>fname\<close> on the stack; \<open>tk_room\<close>
  says whether the ring buffer has room.
\<close>

type_synonym user_memory = "u64 \<Rightarrow> byte option"

record Task =
  tk_pid :: u32
  tk_ppid :: u32
  tk_ktime :: u64
  tk_mem :: user_memory
  tk_mem2 :: user_memory
  tk_stdin :: "u16 option"
  tk_stack :: "nat \<Rightarrow> byte"
  tk_room :: bool

text \<open>\<open>bpf_probe_read_user\<close>: \<open>n\<close> bytes, and whether they could be read.\<close>

fun user_bytes :: "user_memory \<Rightarrow> nat \<Rightarrow> u64 \<Rightarrow> byte list option" where
  "user_bytes mem 0 a = Some []"
| "user_bytes mem (Suc n) a =
     (case mem a of
        None \<Rightarrow> None
      | Some c \<Rightarrow> map_option ((#) c) (user_bytes mem n (a + 1)))"

definition read_user :: "user_memory \<Rightarrow> nat \<Rightarrow> u64 \<Rightarrow> byte list \<times> bool" where
  "read_user mem n a =
     (case user_bytes mem n a of None \<Rightarrow> (replicate n 0, False) | Some bs \<Rightarrow> (bs, True))"

text \<open>A pointer in user memory; \<open>None\<close> for a fault or a null pointer.\<close>

definition read_ptr :: "user_memory \<Rightarrow> u64 \<Rightarrow> u64 option" where
  "read_ptr mem a =
     (let (bs, ok) = read_user mem 8 a; p = of_nat (le_val bs)
      in if \<not> ok \<or> p = 0 then None else Some p)"

text \<open>
  \<open>bpf_probe_read_user_str\<close> into a zeroed destination of \<open>n\<close> bytes: up to \<open>n\<close> bytes are read, and
  the last byte of the destination is always NUL.
\<close>

fun user_str :: "user_memory \<Rightarrow> nat \<Rightarrow> u64 \<Rightarrow> byte list option" where
  "user_str mem 0 a = Some []"
| "user_str mem (Suc n) a =
     (case mem a of
        None \<Rightarrow> None
      | Some c \<Rightarrow> (if c = 0 then Some [] else map_option ((#) c) (user_str mem n (a + 1))))"

definition read_str :: "user_memory \<Rightarrow> nat \<Rightarrow> u64 \<Rightarrow> byte list" where
  "read_str mem n a =
     (case user_str mem n a of
        None \<Rightarrow> replicate n 0
      | Some s \<Rightarrow> (let s = take (n - 1) s in s @ replicate (n - length s) 0))"

section \<open>Classification\<close>

text \<open>A C string is its bytes by index; \<open>lit c i s\<close> are the tests \<open>c[i]==s[0] && c[i+1]==s[1] && \<dots>\<close>.\<close>

type_synonym cstr = "nat \<Rightarrow> byte"

fun lit :: "cstr \<Rightarrow> nat \<Rightarrow> string \<Rightarrow> bool" where
  "lit c i [] = True"
| "lit c i (x # xs) = (c i = byte_of_char x \<and> lit c (Suc i) xs)"

definition phase_from_comm :: "cstr \<Rightarrow> Phase" where
  "phase_from_comm c =
     (if lit c 0 ''pip'' then PhaseDownload
      else if lit c 0 ''npm'' \<and> c 3 = 0 then PhaseDownload
      else if lit c 0 ''yarn'' \<and> c 4 = 0 then PhaseDownload
      else if lit c 0 ''pnpm'' \<and> c 4 = 0 then PhaseDownload
      else if lit c 0 ''cargo'' \<and> c 5 = 0 then PhaseDownload
      else if lit c 0 ''gem'' \<and> c 3 = 0 then PhaseDownload
      else if lit c 0 ''apt'' then PhaseDownload
      else if lit c 0 ''dpkg'' then PhaseDownload
      else if lit c 0 ''make'' \<and> c 4 = 0 then PhaseBuild
      else if lit c 0 ''cmake'' then PhaseBuild
      else if lit c 0 ''ninja'' then PhaseBuild
      else if lit c 0 ''meson'' then PhaseBuild
      else if lit c 0 ''setup.'' then PhaseBuild
      else if lit c 0 ''gcc'' \<and> c 3 = 0 then PhaseCompile
      else if lit c 0 ''g++'' \<and> c 3 = 0 then PhaseCompile
      else if lit c 0 ''cc1'' \<and> c 3 = 0 then PhaseCompile
      else if lit c 0 ''clang'' then PhaseCompile
      else if lit c 0 ''rustc'' then PhaseCompile
      else if lit c 0 ''ld'' \<and> c 2 = 0 then PhaseLink
      else if lit c 0 ''lld'' \<and> c 3 = 0 then PhaseLink
      else if lit c 0 ''gold'' \<and> c 4 = 0 then PhaseLink
      else if lit c 0 ''postinst'' then PhasePostinst
      else PhaseUnknown)"

text \<open>\<open>basename_of\<close>: the index after the last slash before the end of the string.\<close>

fun basename_loop :: "nat \<Rightarrow> nat \<Rightarrow> byte list \<Rightarrow> nat" where
  "basename_loop i lst [] = lst"
| "basename_loop i lst (b # buf) =
     (if b = 0 then lst
      else basename_loop (i + 1) (if b = byte_of_char (CHR ''/'') then i + 1 else lst) buf)"

definition basename_of :: "byte list \<Rightarrow> nat" where
  "basename_of buf = basename_loop 0 0 buf"

definition is_install_path :: "cstr \<Rightarrow> bool" where
  "is_install_path p \<longleftrightarrow>
     lit p 0 ''/'' \<and>
     (lit p 1 ''usr/'' \<or> lit p 1 ''bin/'' \<or> lit p 1 ''sbin'' \<or> lit p 1 ''etc/'')"

text \<open>The iterations \<open>i\<close>, \<dots>, \<open>i + n - 1\<close> of the scan for hidden directories.\<close>

fun sensitive_loop :: "cstr \<Rightarrow> nat \<Rightarrow> nat \<Rightarrow> bool" where
  "sensitive_loop p i 0 = False"
| "sensitive_loop p i (Suc n) =
     (if p i = 0 then False
      else if p (i - 1) = byte_of_char (CHR ''/'') \<and> p i = byte_of_char (CHR ''.'') \<and>
        (lit p (i + 1) ''ssh/'' \<or> lit p (i + 1) ''aws'' \<or> lit p (i + 1) ''gnupg'' \<or>
         lit p (i + 1) ''env'' \<and> (p (i + 4) = 0 \<or> p (i + 4) = byte_of_char (CHR ''/'')))
      then True
      else sensitive_loop p (i + 1) n)"

definition is_sensitive_read_path :: "cstr \<Rightarrow> bool" where
  "is_sensitive_read_path p \<longleftrightarrow>
     lit p 0 ''/etc/'' \<and> (lit p 5 ''shadow'' \<or> lit p 5 ''passw'') \<or>
     lit p 0 ''/root/.'' \<or>
     sensitive_loop p 1 191"

definition is_temp_path :: "cstr \<Rightarrow> bool" where
  "is_temp_path p \<longleftrightarrow>
     lit p 0 ''/'' \<and>
     (lit p 1 ''tmp/'' \<or> lit p 1 ''dev/shm'' \<or> lit p 1 ''var/tmp'' \<or> lit p 1 ''run/'')"

definition is_shell_comm :: "cstr \<Rightarrow> bool" where
  "is_shell_comm c \<longleftrightarrow>
     lit c 0 ''sh'' \<and> c 2 = 0 \<or> lit c 0 ''bash'' \<and> c 4 = 0 \<or> lit c 0 ''dash'' \<and> c 4 = 0 \<or>
     lit c 0 ''zsh'' \<and> c 3 = 0 \<or> lit c 0 ''fish'' \<and> c 4 = 0 \<or> lit c 0 ''ksh'' \<and> c 3 = 0 \<or>
     lit c 0 ''csh'' \<and> c 3 = 0"

definition stdin_is_pipe :: "Task \<Rightarrow> bool" where
  "stdin_is_pipe t = (case tk_stdin t of None \<Rightarrow> False | Some mode \<Rightarrow> mode AND 0xF000 = 0x1000)"

text \<open>The iterations \<open>i\<close>, \<dots>, \<open>i + n - 1\<close> of the scan for generic secrets.\<close>

fun generic_loop :: "cstr \<Rightarrow> nat \<Rightarrow> nat \<Rightarrow> u32" where
  "generic_loop e i 0 = 0"
| "generic_loop e i (Suc n) =
     (if e i = byte_of_char (CHR ''='') \<or> e i = 0 then 0
      else (if lit e i ''SECRET'' then EnvFlagGenericSec else 0) OR
           (if lit e i ''PASSW'' then EnvFlagGenericSec else 0) OR
           generic_loop e (i + 1) n)"

definition check_env_flags :: "cstr \<Rightarrow> u32" where
  "check_env_flags e =
     (if lit e 0 ''LD_PRELOAD='' then EnvFlagLdPreload else 0) OR
     (if lit e 0 ''LD_LIBRARY'' then EnvFlagLdLibrary else 0) OR
     (if lit e 0 ''AWS_ACCESS'' then EnvFlagAwsKey else 0) OR
     (if lit e 0 ''GITHUB_TOKEN='' then EnvFlagGitToken else 0) OR
     (if lit e 0 ''NPM_TOKEN='' then EnvFlagNpmToken else 0) OR
     (if lit e 0 ''PYPI_TOKEN='' then EnvFlagPypiToken else 0) OR
     (if lit e 0 ''CARGO_REG'' then EnvFlagCargoToken else 0) OR
     generic_loop e 0 26"

section \<open>Reserving and emitting\<close>

text \<open>
  A reservation answers whether there is a slot; \<open>None\<close> means that it does not return.
\<close>

type_synonym reservation = "Task \<Rightarrow> Kernel \<Rightarrow> (bool \<times> Kernel) option"

definition count_drop :: "Kernel \<Rightarrow> Kernel" where
  "count_drop k = k\<lparr>k_drop_count := k_drop_count k + 1\<rparr>"

partial_function (option) reserve_or_drop :: "Task \<Rightarrow> Kernel \<Rightarrow> (bool \<times> Kernel) option" where
  "reserve_or_drop t k =
     Option.bind (reserve_or_drop t k)
       (\<lambda>(evt, k). Some (if \<not> evt then (False, count_drop k) else (True, k)))"

definition reserve_slot :: reservation where
  "reserve_slot t k = Some (if tk_room t then (True, k) else (False, count_drop k))"

definition emit :: "Task \<Rightarrow> EventType \<Rightarrow> Phase \<Rightarrow> Severity \<Rightarrow> u32 \<Rightarrow> u32 \<Rightarrow> ProcInfo \<Rightarrow> ChainEvent" where
  "emit t type phase severity pid ppid info =
     zero_event
       \<lparr>e_Timestamp := tk_ktime t, e_Pid := pid, e_Ppid := ppid, e_RootPid := pi_RootPid info,
        e_EventType := type, e_Phase := phase, e_Severity := severity,
        e_Comm := pi_Comm info, e_RootComm := pi_RootComm info\<rparr>"

text \<open>What a hook does with a slot: fill it in and submit it.\<close>

definition submit :: "reservation \<Rightarrow> Task \<Rightarrow> ChainEvent \<Rightarrow> Kernel \<Rightarrow> Kernel option" where
  "submit reserve t evt k =
     (case reserve t k of
        None \<Rightarrow> None
      | Some (False, k) \<Rightarrow> Some k
      | Some (True, k) \<Rightarrow> Some (k\<lparr>k_events := k_events k @ [encode_event evt]\<rparr>))"

section \<open>The hooks\<close>

text \<open>The string that starts at offset \<open>k\<close> of a buffer, with what follows the buffer in memory.\<close>

definition c_at :: "byte list \<Rightarrow> (nat \<Rightarrow> byte) \<Rightarrow> nat \<Rightarrow> cstr" where
  "c_at buf past k i = (if k + i < length buf then buf ! (k + i) else past (k + i - length buf))"

text \<open>The loop over the arguments, from slot \<open>i\<close> on, and the loop over the environment.\<close>

fun argv_loop :: "user_memory \<Rightarrow> u64 \<Rightarrow> nat \<Rightarrow> nat \<Rightarrow> byte list \<Rightarrow> byte list" where
  "argv_loop mem argv_ptr i 0 buf = buf"
| "argv_loop mem argv_ptr i (Suc n) buf =
     (case read_ptr mem (argv_ptr + 8 * of_nat (i + 1)) of
        None \<Rightarrow> buf
      | Some arg \<Rightarrow>
          argv_loop mem argv_ptr (i + 1) n
            (take (i * 12) buf @ read_str mem 12 arg @ drop (i * 12 + 12) buf))"

fun env_loop :: "user_memory \<Rightarrow> u64 \<Rightarrow> nat \<Rightarrow> nat \<Rightarrow> u32 \<Rightarrow> u32" where
  "env_loop mem envp_ptr i 0 flags = flags"
| "env_loop mem envp_ptr i (Suc n) flags =
     (case read_ptr mem (envp_ptr + 8 * of_nat i) of
        None \<Rightarrow> flags
      | Some ep \<Rightarrow>
          env_loop mem envp_ptr (i + 1) n
            (flags OR check_env_flags (c_at (read_str mem 32 ep) (\<lambda>_. 0) 0)))"

text \<open>\<open>args\<close> are the six arguments of the system call, \<open>ctx->args\<close>.\<close>

definition exec_info :: "Task \<Rightarrow> cstr \<Rightarrow> ProcInfo option \<Rightarrow> ProcInfo" where
  "exec_info t base parent =
     (let own_phase = phase_from_comm base in
      case parent of
        Some p \<Rightarrow>
          \<lparr>pi_Ppid = tk_ppid t, pi_RootPid = pi_RootPid p,
           pi_Phase = (if own_phase \<noteq> PhaseUnknown then own_phase else pi_Phase p),
           pi_Comm = map base [0..<16], pi_RootComm = pi_RootComm p\<rparr>
      | None \<Rightarrow>
          \<lparr>pi_Ppid = tk_ppid t, pi_RootPid = tk_pid t, pi_Phase = own_phase,
           pi_Comm = map base [0..<16], pi_RootComm = map base [0..<16]\<rparr>)"

definition exec_flags :: "Task \<Rightarrow> cstr \<Rightarrow> cstr \<Rightarrow> u32" where
  "exec_flags t fname base =
     (if is_temp_path fname then ExecFlagTempPath else 0) OR
     (if is_shell_comm base
      then ExecFlagIsShell OR (if stdin_is_pipe t then ExecFlagStdinPipe else 0) else 0)"

definition trace_execve :: "reservation \<Rightarrow> Task \<Rightarrow> (nat \<Rightarrow> u64) \<Rightarrow> Kernel \<Rightarrow> Kernel option" where
  "trace_execve reserve t args k =
     (let pid = tk_pid t; ppid = tk_ppid t;
          fname = read_str (tk_mem t) 256 (args 0);
          base = c_at fname (tk_stack t) (basename_of fname);
          parent = fmlookup (k_proc_tree k) ppid
      in
      if parent = None \<and> phase_from_comm base = PhaseUnknown then Some k
      else
        (let k = (case fmlookup (k_proc_tree k) pid of
                    None \<Rightarrow> k
                  | Some existing \<Rightarrow>
                      k\<lparr>k_saved_execs := map_update saved_execs_cap pid existing (k_saved_execs k)\<rparr>);
             info = exec_info t base parent;
             k = k\<lparr>k_proc_tree := map_update proc_tree_cap pid info (k_proc_tree k)\<rparr>
         in
         submit reserve t
           ((emit t EvtExec (pi_Phase info) SevInfo pid ppid info)
              \<lparr>e_Path := fname,
               e_ExecFlags := exec_flags t (c_at fname (tk_stack t) 0) base,
               e_Argv := argv_loop (tk_mem t) (args 1) 0 8 (replicate 96 0),
               e_EnvFlags := env_loop (tk_mem t) (args 2) 0 32 0\<rparr>)
           k))"

definition trace_execve_exit :: "Task \<Rightarrow> u64 \<Rightarrow> Kernel \<Rightarrow> Kernel" where
  "trace_execve_exit t ret k =
     (let pid = tk_pid t in
      if ret = 0 then k\<lparr>k_saved_execs := fmdrop pid (k_saved_execs k)\<rparr>
      else
        (let k = (case fmlookup (k_saved_execs k) pid of
                    Some saved \<Rightarrow>
                      k\<lparr>k_proc_tree := map_update proc_tree_cap pid saved (k_proc_tree k)\<rparr>
                  | None \<Rightarrow> k\<lparr>k_proc_tree := fmdrop pid (k_proc_tree k)\<rparr>)
         in k\<lparr>k_saved_execs := fmdrop pid (k_saved_execs k)\<rparr>))"

definition trace_exit :: "Task \<Rightarrow> Kernel \<Rightarrow> Kernel" where
  "trace_exit t k =
     k\<lparr>k_proc_tree := fmdrop (tk_pid t) (k_proc_tree k),
       k_saved_execs := fmdrop (tk_pid t) (k_saved_execs k)\<rparr>"

text \<open>The hooks below do nothing in a task that is not tracked.\<close>

definition tracked :: "Task \<Rightarrow> Kernel \<Rightarrow> (ProcInfo \<Rightarrow> Kernel option) \<Rightarrow> Kernel option" where
  "tracked t k f = (case fmlookup (k_proc_tree k) (tk_pid t) of None \<Rightarrow> Some k | Some info \<Rightarrow> f info)"

definition openat_kind :: "ProcInfo \<Rightarrow> cstr \<Rightarrow> u32 \<Rightarrow> (EventType \<times> Severity) option" where
  "openat_kind info path flags =
     (let is_write = (flags AND 3 \<noteq> 0) in
      if is_write \<and> is_install_path path then
        (let sev = (if pi_Phase info = PhaseInstall then SevLow else SevMedium) in
         Some (EvtFileWrite,
               if pi_Phase info = PhaseCompile \<or> pi_Phase info = PhaseBuild then SevHigh else sev))
      else if \<not> is_write \<and> is_sensitive_read_path path then Some (EvtFileOpen, SevInfo)
      else None)"

definition trace_openat :: "reservation \<Rightarrow> Task \<Rightarrow> (nat \<Rightarrow> u64) \<Rightarrow> Kernel \<Rightarrow> Kernel option" where
  "trace_openat reserve t args k = tracked t k (\<lambda>info.
     let path = read_str (tk_mem t) 256 (args 1); flags = ucast (args 2) in
     case openat_kind info (c_at path (\<lambda>_. 0) 0) flags of
       None \<Rightarrow> Some k
     | Some (evt_type, sev) \<Rightarrow>
         submit reserve t
           ((emit t evt_type (pi_Phase info) sev (tk_pid t) (tk_ppid t) info)
              \<lparr>e_Path := path, e_OpenFlags := flags\<rparr>) k)"

definition bswap16 :: "u16 \<Rightarrow> u16" where
  "bswap16 w = push_bit 8 w OR drop_bit 8 w"

text \<open>
  The socket address: \<open>sockaddr_in\<close> has the port at offset 2 and the address at 4 of 16 bytes,
  \<open>sockaddr_in6\<close> the port at 2 and the address at 8 of 28 bytes.
\<close>

definition connect_addr :: "Task \<Rightarrow> u64 \<Rightarrow> bool \<Rightarrow> ChainEvent \<Rightarrow> ChainEvent" where
  "connect_addr t a inet evt =
     (if inet then
        (let sa = fst (read_user (tk_mem2 t) 16 a) in
         evt\<lparr>e_Daddr := take 4 (drop 4 sa) @ replicate 12 0,
             e_Dport := bswap16 (of_nat (le_val (take 2 (drop 2 sa)))),
             e_Proto := 6, e_IsIPv6 := 0\<rparr>)
      else
        (let sa = fst (read_user (tk_mem2 t) 28 a) in
         evt\<lparr>e_Daddr := take 16 (drop 8 sa),
             e_Dport := bswap16 (of_nat (le_val (take 2 (drop 2 sa)))),
             e_Proto := 6, e_IsIPv6 := 1\<rparr>))"

definition trace_connect :: "reservation \<Rightarrow> Task \<Rightarrow> (nat \<Rightarrow> u64) \<Rightarrow> Kernel \<Rightarrow> Kernel option" where
  "trace_connect reserve t args k = tracked t k (\<lambda>info.
     let family = le_val (fst (read_user (tk_mem t) 2 (args 1))) in
     if family \<noteq> 2 \<and> family \<noteq> 10 then Some k
     else
       let sev = (if pi_Phase info = PhaseCompile \<or> pi_Phase info = PhaseLink
                  then SevCritical else SevInfo) in
       submit reserve t
         (connect_addr t (args 1) (family = 2)
            (emit t EvtNetConnect (pi_Phase info) sev (tk_pid t) (tk_ppid t) info)) k)"

definition trace_memfd_create :: "reservation \<Rightarrow> Task \<Rightarrow> (nat \<Rightarrow> u64) \<Rightarrow> Kernel \<Rightarrow> Kernel option" where
  "trace_memfd_create reserve t args k = tracked t k (\<lambda>info.
     submit reserve t
       ((emit t EvtMemfdCreate (pi_Phase info) SevHigh (tk_pid t) (tk_ppid t) info)
          \<lparr>e_MemfdName := read_str (tk_mem t) 64 (args 0), e_MemfdFlags := ucast (args 1)\<rparr>) k)"

definition trace_execveat :: "reservation \<Rightarrow> Task \<Rightarrow> (nat \<Rightarrow> u64) \<Rightarrow> Kernel \<Rightarrow> Kernel option" where
  "trace_execveat reserve t args k = tracked t k (\<lambda>info.
     if (ucast (args 4) :: u32) AND 0x1000 = 0 then Some k
     else submit reserve t
       (emit t EvtExecveat (pi_Phase info) SevCritical (tk_pid t) (tk_ppid t) info) k)"

definition trace_fchmodat :: "reservation \<Rightarrow> Task \<Rightarrow> (nat \<Rightarrow> u64) \<Rightarrow> Kernel \<Rightarrow> Kernel option" where
  "trace_fchmodat reserve t args k = tracked t k (\<lambda>info.
     let mode = ucast (args 2) :: u32 in
     if mode AND 0xC00 = 0 \<and> mode AND 0x49 = 0 then Some k
     else
       let path = read_str (tk_mem t) 256 (args 1);
           sev = (if is_install_path (c_at path (\<lambda>_. 0) 0) then SevHigh else SevMedium) in
       submit reserve t
         ((emit t EvtChmod (pi_Phase info) sev (tk_pid t) (tk_ppid t) info)
            \<lparr>e_Path := path, e_NewMode := mode\<rparr>) k)"

definition trace_bpf :: "reservation \<Rightarrow> Task \<Rightarrow> (nat \<Rightarrow> u64) \<Rightarrow> Kernel \<Rightarrow> Kernel option" where
  "trace_bpf reserve t args k =
     (if (ucast (args 0) :: u32) \<noteq> 5 then Some k
      else tracked t k (\<lambda>info.
        submit reserve t
          (emit t EvtBpfLoad (pi_Phase info) SevCritical (tk_pid t) (tk_ppid t) info) k))"

definition trace_getaddrinfo :: "reservation \<Rightarrow> Task \<Rightarrow> u64 \<Rightarrow> Kernel \<Rightarrow> Kernel option" where
  "trace_getaddrinfo reserve t node k = tracked t k (\<lambda>info.
     if node = 0 then Some k
     else submit reserve t
       ((emit t EvtDnsLookup (pi_Phase info) SevInfo (tk_pid t) (tk_ppid t) info)
          \<lparr>e_Path := read_str (tk_mem t) 256 node\<rparr>) k)"

section \<open>Runs\<close>

datatype hook =
    SysEnterExecve "nat \<Rightarrow> u64"
  | SysExitExecve u64
  | SchedProcessExit
  | SysEnterOpenat "nat \<Rightarrow> u64"
  | SysEnterConnect "nat \<Rightarrow> u64"
  | SysEnterMemfdCreate "nat \<Rightarrow> u64"
  | SysEnterExecveat "nat \<Rightarrow> u64"
  | SysEnterFchmodat "nat \<Rightarrow> u64"
  | SysEnterBpf "nat \<Rightarrow> u64"
  | Getaddrinfo u64

fun run_hook :: "reservation \<Rightarrow> Task \<Rightarrow> hook \<Rightarrow> Kernel \<Rightarrow> Kernel option" where
  "run_hook reserve t (SysEnterExecve args) k = trace_execve reserve t args k"
| "run_hook reserve t (SysExitExecve ret) k = Some (trace_execve_exit t ret k)"
| "run_hook reserve t SchedProcessExit k = Some (trace_exit t k)"
| "run_hook reserve t (SysEnterOpenat args) k = trace_openat reserve t args k"
| "run_hook reserve t (SysEnterConnect args) k = trace_connect reserve t args k"
| "run_hook reserve t (SysEnterMemfdCreate args) k = trace_memfd_create reserve t args k"
| "run_hook reserve t (SysEnterExecveat args) k = trace_execveat reserve t args k"
| "run_hook reserve t (SysEnterFchmodat args) k = trace_fchmodat reserve t args k"
| "run_hook reserve t (SysEnterBpf args) k = trace_bpf reserve t args k"
| "run_hook reserve t (Getaddrinfo node) k = trace_getaddrinfo reserve t node k"

text \<open>A run of the system: hooks in the order they fire, and the seeding of a process.\<close>

datatype action = Hook Task hook | Seed u32 string

fun act :: "reservation \<Rightarrow> action \<Rightarrow> Kernel \<Rightarrow> Kernel option" where
  "act reserve (Hook t h) k = run_hook reserve t h k"
| "act reserve (Seed pid comm) k =
     Some (k\<lparr>k_proc_tree := map_update proc_tree_cap pid (seed_info pid comm) (k_proc_tree k)\<rparr>)"

fun run :: "reservation \<Rightarrow> action list \<Rightarrow> Kernel \<Rightarrow> Kernel option" where
  "run reserve [] k = Some k"
| "run reserve (a # as) k = Option.bind (act reserve a k) (run reserve as)"

end
