(* ===== verification/Tracking.thy ===== *)
theory Tracking
  imports Probes
begin

text \<open>
  What the hooks of \<open>Probes\<close> guarantee: the records they submit decode, with all enumerations in
  range; only known tools, seeded processes and what descends from them are watched; a hook only
  touches the entry of its own process; and what a failed \<open>execve\<close> leaves behind. The locale
  \<open>slot_reserve\<close> holds the lemmas for both readings of \<open>reserve_or_drop\<close>.
\<close>

section \<open>Invariants of the maps\<close>

definition info_ok :: "ProcInfo \<Rightarrow> bool" where
  "info_ok i \<longleftrightarrow> length (pi_Comm i) = 16 \<and> length (pi_RootComm i) = 16 \<and> pi_Phase i \<le> PhasePostinst"

text \<open>Events with every enumeration in the range that user space knows.\<close>

definition event_typed :: "ChainEvent \<Rightarrow> bool" where
  "event_typed e \<longleftrightarrow>
     e_EventType e \<in> {EvtExec, EvtFileOpen, EvtNetConnect, EvtMemfdCreate, EvtExecveat, EvtFileWrite,
       EvtChmod, EvtDnsLookup, EvtBpfLoad} \<and>
     e_Phase e \<le> PhasePostinst \<and> e_Severity e \<le> SevCritical"

text \<open>A root process: its name is that of a known tool, or it was seeded.\<close>

definition known_tool :: "byte list \<Rightarrow> bool" where
  "known_tool comm \<longleftrightarrow> phase_from_comm (\<lambda>i. comm ! i) \<noteq> PhaseUnknown"

definition seeded :: "action list \<Rightarrow> u32 set" where
  "seeded as = {pid. \<exists>comm. Seed pid comm \<in> set as}"

definition root_ok :: "u32 set \<Rightarrow> u32 \<Rightarrow> byte list \<Rightarrow> bool" where
  "root_ok S root comm \<longleftrightarrow> known_tool comm \<or> root \<in> S"

definition entry_ok :: "u32 set \<Rightarrow> ProcInfo \<Rightarrow> bool" where
  "entry_ok S i \<longleftrightarrow> info_ok i \<and> root_ok S (pi_RootPid i) (pi_RootComm i)"

definition record_ok :: "u32 set \<Rightarrow> byte list \<Rightarrow> bool" where
  "record_ok S bs \<longleftrightarrow>
     (\<exists>e. bs = encode_event e \<and> wf_event e \<and> event_typed e \<and> root_ok S (e_RootPid e) (e_RootComm e))"

definition kernel_ok :: "u32 set \<Rightarrow> Kernel \<Rightarrow> bool" where
  "kernel_ok S k \<longleftrightarrow>
     fmpred (\<lambda>_. entry_ok S) (k_proc_tree k) \<and> fmpred (\<lambda>_. entry_ok S) (k_saved_execs k) \<and>
     list_all (record_ok S) (k_events k)"

lemma phase_from_comm_cong:
  assumes "\<And>i. i < 8 \<Longrightarrow> c i = d i"
  shows "phase_from_comm c = phase_from_comm d"
proof -
  have "c 0 = d 0" "c 1 = d 1" "c 2 = d 2" "c 3 = d 3" "c 4 = d 4" "c 5 = d 5" "c 6 = d 6" "c 7 = d 7"
    using assms by simp_all
  then show ?thesis by (simp add: phase_from_comm_def eval_nat_numeral)
qed

lemma phase_from_comm_range: "phase_from_comm c \<le> PhasePostinst"
  by (simp add: phase_from_comm_def)

lemma known_tool_name: "known_tool (map base [0..<16]) \<longleftrightarrow> phase_from_comm base \<noteq> PhaseUnknown"
proof -
  have "phase_from_comm (\<lambda>i. map base [0..<16] ! i) = phase_from_comm base"
    by (rule phase_from_comm_cong) simp
  then show ?thesis by (simp add: known_tool_def)
qed

lemma length_user_str: "user_str mem n a = Some s \<Longrightarrow> length s \<le> n"
  by (induction mem n a arbitrary: s rule: user_str.induct) (auto split: option.splits if_splits)

lemma length_read_str [simp]: "0 < n \<Longrightarrow> length (read_str mem n a) = n"
  by (auto simp: read_str_def Let_def dest: length_user_str split: option.split)

lemma length_argv_loop [simp]:
  "length buf = 96 \<Longrightarrow> i + n \<le> 8 \<Longrightarrow> length (argv_loop mem ptr i n buf) = 96"
  by (induction mem ptr i n buf rule: argv_loop.induct) (auto split: option.split)

lemma length_user_bytes: "user_bytes mem n a = Some s \<Longrightarrow> length s = n"
  by (induction mem n a arbitrary: s rule: user_bytes.induct) (auto split: option.splits)

lemma length_read_user [simp]: "length (fst (read_user mem n a)) = n"
  by (auto simp: read_user_def dest: length_user_bytes split: option.split)

lemma emit_wf: "info_ok i \<Longrightarrow> wf_event (emit t ty ph sev pid ppid i)"
  by (simp add: emit_def wf_event_def info_ok_def zero_event_def)

lemma emit_sel [simp]:
  "e_EventType (emit t ty ph sev pid ppid i) = ty" "e_Phase (emit t ty ph sev pid ppid i) = ph"
  "e_Severity (emit t ty ph sev pid ppid i) = sev" "e_RootPid (emit t ty ph sev pid ppid i) = pi_RootPid i"
  "e_RootComm (emit t ty ph sev pid ppid i) = pi_RootComm i" "e_Comm (emit t ty ph sev pid ppid i) = pi_Comm i"
  "e_Pid (emit t ty ph sev pid ppid i) = pid" "e_Ppid (emit t ty ph sev pid ppid i) = ppid"
  by (simp_all add: emit_def)

lemma fmpred_map_update: "fmpred P m \<Longrightarrow> P k v \<Longrightarrow> fmpred P (map_update cap k v m)"
  by (auto simp: map_update_def intro: fmpred_upd)

lemma fmlookup_map_update:
  "fmlookup (map_update cap k v m) q = (if q = k \<and> (k |\<in>| fmdom m \<or> fcard (fmdom m) < cap) then Some v else fmlookup m q)"
  by (simp add: map_update_def)

lemma exec_info_ok:
  assumes "case parent of None \<Rightarrow> phase_from_comm base \<noteq> PhaseUnknown | Some p \<Rightarrow> entry_ok S p"
  shows "entry_ok S (exec_info t base parent)"
  using assms phase_from_comm_range [of base]
  by (auto simp: exec_info_def Let_def entry_ok_def info_ok_def root_ok_def known_tool_name split: option.splits)

lemma seed_info_ok: "pid \<in> S \<Longrightarrow> entry_ok S (seed_info pid comm)"
  using seed_info_comm [of pid comm]
  by (simp add: entry_ok_def info_ok_def root_ok_def seed_info_def Let_def seed_loop_fields)


section \<open>\<open>execve\<close> in parts\<close>

definition exec_name :: "Task \<Rightarrow> (nat \<Rightarrow> u64) \<Rightarrow> cstr" where
  "exec_name t args =
     (let fname = read_str (tk_mem t) 256 (args 0) in c_at fname (tk_stack t) (basename_of fname))"

text \<open>An \<open>execve\<close> is considered if the parent is tracked or the program is a known tool.\<close>

definition considered :: "Task \<Rightarrow> (nat \<Rightarrow> u64) \<Rightarrow> Kernel \<Rightarrow> bool" where
  "considered t args k \<longleftrightarrow>
     fmlookup (k_proc_tree k) (tk_ppid t) \<noteq> None \<or> phase_from_comm (exec_name t args) \<noteq> PhaseUnknown"

definition exec_entry :: "Task \<Rightarrow> (nat \<Rightarrow> u64) \<Rightarrow> Kernel \<Rightarrow> ProcInfo" where
  "exec_entry t args k = exec_info t (exec_name t args) (fmlookup (k_proc_tree k) (tk_ppid t))"

definition exec_maps :: "Task \<Rightarrow> (nat \<Rightarrow> u64) \<Rightarrow> Kernel \<Rightarrow> Kernel" where
  "exec_maps t args k =
     k\<lparr>k_proc_tree := map_update proc_tree_cap (tk_pid t) (exec_entry t args k) (k_proc_tree k),
       k_saved_execs := (case fmlookup (k_proc_tree k) (tk_pid t) of
          None \<Rightarrow> k_saved_execs k
        | Some old \<Rightarrow> map_update saved_execs_cap (tk_pid t) old (k_saved_execs k))\<rparr>"

definition exec_event :: "Task \<Rightarrow> (nat \<Rightarrow> u64) \<Rightarrow> Kernel \<Rightarrow> ChainEvent" where
  "exec_event t args k =
     (let info = exec_entry t args k; fname = read_str (tk_mem t) 256 (args 0) in
      (emit t EvtExec (pi_Phase info) SevInfo (tk_pid t) (tk_ppid t) info)
        \<lparr>e_Path := fname,
         e_ExecFlags := exec_flags t (c_at fname (tk_stack t) 0) (exec_name t args),
         e_Argv := argv_loop (tk_mem t) (args 1) 0 8 (replicate 96 0),
         e_EnvFlags := env_loop (tk_mem t) (args 2) 0 32 0\<rparr>)"

lemma trace_execve_parts:
  "trace_execve reserve t args k =
     (if considered t args k then submit reserve t (exec_event t args k) (exec_maps t args k) else Some k)"
  by (cases k) (simp add: trace_execve_def considered_def exec_event_def exec_maps_def exec_entry_def
      exec_name_def Let_def split: option.split)

section \<open>The event of a hook\<close>

text \<open>
  The event that a hook other than those of \<open>execve\<close> and of process exit has for a tracked process;
  these hooks do nothing but submit it (\<open>run_hook_event\<close>).
\<close>

fun hook_event :: "Task \<Rightarrow> hook \<Rightarrow> ProcInfo \<Rightarrow> ChainEvent option" where
  "hook_event t (SysEnterOpenat args) info =
     (let path = read_str (tk_mem t) 256 (args 1); flags = ucast (args 2) in
      map_option (\<lambda>(ty, sev). (emit t ty (pi_Phase info) sev (tk_pid t) (tk_ppid t) info)
          \<lparr>e_Path := path, e_OpenFlags := flags\<rparr>)
        (openat_kind info (c_at path (\<lambda>_. 0) 0) flags))"
| "hook_event t (SysEnterConnect args) info =
     (let family = le_val (fst (read_user (tk_mem t) 2 (args 1))) in
      if family \<in> {2, 10} then
        Some (connect_addr t (args 1) (family = 2)
          (emit t EvtNetConnect (pi_Phase info)
             (if pi_Phase info \<in> {PhaseCompile, PhaseLink} then SevCritical else SevInfo)
             (tk_pid t) (tk_ppid t) info))
      else None)"
| "hook_event t (SysEnterMemfdCreate args) info =
     Some ((emit t EvtMemfdCreate (pi_Phase info) SevHigh (tk_pid t) (tk_ppid t) info)
       \<lparr>e_MemfdName := read_str (tk_mem t) 64 (args 0), e_MemfdFlags := ucast (args 1)\<rparr>)"
| "hook_event t (SysEnterExecveat args) info =
     (if bit (args 4) 12 then
        Some (emit t EvtExecveat (pi_Phase info) SevCritical (tk_pid t) (tk_ppid t) info)
      else None)"
| "hook_event t (SysEnterFchmodat args) info =
     (let mode = ucast (args 2) :: u32; path = read_str (tk_mem t) 256 (args 1) in
      if \<exists>i \<in> {0, 3, 6, 10, 11}. bit mode i then
        Some ((emit t EvtChmod (pi_Phase info)
            (if is_install_path (c_at path (\<lambda>_. 0) 0) then SevHigh else SevMedium)
            (tk_pid t) (tk_ppid t) info)\<lparr>e_Path := path, e_NewMode := mode\<rparr>)
      else None)"
| "hook_event t (SysEnterBpf args) info =
     (if (ucast (args 0) :: u32) = 5 then
        Some (emit t EvtBpfLoad (pi_Phase info) SevCritical (tk_pid t) (tk_ppid t) info)
      else None)"
| "hook_event t (Getaddrinfo node) info =
     (if node \<noteq> 0 then
        Some ((emit t EvtDnsLookup (pi_Phase info) SevInfo (tk_pid t) (tk_ppid t) info)
          \<lparr>e_Path := read_str (tk_mem t) 256 node\<rparr>)
      else None)"
| "hook_event t h info = None"

definition watching :: "hook \<Rightarrow> bool" where
  "watching h = (case h of SysEnterExecve _ \<Rightarrow> False | SysExitExecve _ \<Rightarrow> False | SchedProcessExit \<Rightarrow> False | _ \<Rightarrow> True)"

lemma mask_bits:
  "(w :: u32) AND 0x1000 = 0 \<longleftrightarrow> \<not> bit w 12"
  "w AND 0xC00 = 0 \<longleftrightarrow> \<not> bit w 10 \<and> \<not> bit w 11"
  "w AND 0x49 = 0 \<longleftrightarrow> \<not> bit w 0 \<and> \<not> bit w 3 \<and> \<not> bit w 6"
proof -
  have split: "w AND (a OR b) = 0 \<longleftrightarrow> w AND a = 0 \<and> w AND b = 0" for a b :: u32
    by (simp add: bit.conj_disj_distrib bit_eq_iff bit_simps) blast
  have pb: "w AND push_bit n 1 = 0 \<longleftrightarrow> \<not> bit w n" for n
    by (simp add: bit_iff_and_push_bit_not_eq_0)
  have "(0x1000 :: u32) = push_bit 12 1" "(0xC00 :: u32) = push_bit 10 1 OR push_bit 11 1"
    "(0x49 :: u32) = push_bit 0 1 OR (push_bit 3 1 OR push_bit 6 1)" by simp_all
  then show "w AND 0x1000 = 0 \<longleftrightarrow> \<not> bit w 12" "w AND 0xC00 = 0 \<longleftrightarrow> \<not> bit w 10 \<and> \<not> bit w 11"
    "w AND 0x49 = 0 \<longleftrightarrow> \<not> bit w 0 \<and> \<not> bit w 3 \<and> \<not> bit w 6"
    by (simp_all only: split pb de_Morgan_conj)
qed

lemma run_hook_event:
  assumes "watching h"
  shows "run_hook reserve t h k =
    tracked t k (\<lambda>info. case hook_event t h info of None \<Rightarrow> Some k | Some e \<Rightarrow> submit reserve t e k)"
proof (cases h)
  case (SysEnterBpf args)
  then show ?thesis by (auto simp: trace_bpf_def tracked_def split: option.split)
next
  case (SysEnterOpenat args)
  then show ?thesis
    by (auto simp: trace_openat_def Let_def fun_eq_iff intro!: arg_cong [of _ _ "tracked t k"] split: option.split)
next
  case (SysEnterConnect args)
  then show ?thesis
    by (auto simp: trace_connect_def Let_def fun_eq_iff intro!: arg_cong [of _ _ "tracked t k"])
next
  case (SysEnterExecveat args)
  have "bit (ucast (args 4) :: u32) 12 = bit (args 4) 12" by (simp add: bit_simps)
  with SysEnterExecveat show ?thesis
    by (auto simp: trace_execveat_def mask_bits fun_eq_iff intro!: arg_cong [of _ _ "tracked t k"])
next
  case (SysEnterFchmodat args)
  then show ?thesis
    by (auto simp: trace_fchmodat_def Let_def mask_bits fun_eq_iff intro!: arg_cong [of _ _ "tracked t k"])
qed (use assms in \<open>auto simp: watching_def trace_memfd_create_def trace_getaddrinfo_def fun_eq_iff
  intro!: arg_cong [of _ _ "tracked t k"]\<close>)

lemma openat_kind_range:
  "openat_kind info path flags = Some (ty, sev) \<Longrightarrow> ty \<in> {EvtFileOpen, EvtFileWrite} \<and> sev \<le> SevCritical"
  by (auto simp: openat_kind_def Let_def split: if_splits)

lemma hook_event_ok:
  assumes "hook_event t h info = Some e" "entry_ok S info"
  shows "wf_event e \<and> event_typed e \<and> root_ok S (e_RootPid e) (e_RootComm e)"
proof -
  have i: "length (pi_Comm info) = 16" "length (pi_RootComm info) = 16" "pi_Phase info \<le> 7"
    "root_ok S (pi_RootPid info) (pi_RootComm info)" using assms(2) by (simp_all add: entry_ok_def info_ok_def)
  show ?thesis
  proof (cases h)
    case (SysEnterOpenat args)
    with assms(1) i openat_kind_range show ?thesis
      by (fastforce simp: Let_def wf_event_def event_typed_def emit_def zero_event_def)
  qed (use assms(1) i in \<open>auto simp: wf_event_def event_typed_def emit_def zero_event_def connect_addr_def
    Let_def split: if_splits\<close>)
qed

text \<open>No action is one of process \<open>p\<close>.\<close>

definition others :: "u32 \<Rightarrow> action list \<Rightarrow> bool" where
  "others p as \<longleftrightarrow> list_all (\<lambda>a. case a of Hook t h \<Rightarrow> tk_pid t \<noteq> p | Seed q comm \<Rightarrow> q \<noteq> p) as"

section \<open>What a reservation may do\<close>

locale slot_reserve =
  fixes reserve :: reservation
  assumes keeps: "reserve t k = Some (ok, k') \<Longrightarrow>
    k_proc_tree k' = k_proc_tree k \<and> k_saved_execs k' = k_saved_execs k \<and> k_events k' = k_events k"
begin

lemma submit_effect:
  assumes "submit reserve t evt k = Some k'"
  shows "k_proc_tree k' = k_proc_tree k" "k_saved_execs k' = k_saved_execs k"
    "k_events k' = k_events k \<or> k_events k' = k_events k @ [encode_event evt]"
proof -
  obtain ok k1 where r: "reserve t k = Some (ok, k1)"
    using assms by (cases "reserve t k") (auto simp: submit_def)
  from keeps [OF r] show "k_proc_tree k' = k_proc_tree k" "k_saved_execs k' = k_saved_execs k"
    "k_events k' = k_events k \<or> k_events k' = k_events k @ [encode_event evt]"
    using assms r by (auto simp: submit_def split: bool.splits)
qed

lemma submit_ok:
  assumes "submit reserve t evt k = Some k'" "kernel_ok S k"
    and "wf_event evt" "event_typed evt" "root_ok S (e_RootPid evt) (e_RootComm evt)"
  shows "kernel_ok S k'"
  using submit_effect [OF assms(1)] assms(2-5) by (auto simp: kernel_ok_def record_ok_def)

lemma tracked_ok:
  assumes "tracked t k f = Some k'" "kernel_ok S k"
    and "\<And>info. entry_ok S info \<Longrightarrow> f info = Some k' \<Longrightarrow> kernel_ok S k'"
  shows "kernel_ok S k'"
proof (cases "fmlookup (k_proc_tree k) (tk_pid t)")
  case None
  with assms(1,2) show ?thesis by (simp add: tracked_def)
next
  case (Some info)
  then have "entry_ok S info" using assms(2) by (auto simp: kernel_ok_def dest: fmpredD)
  with assms(1,3) Some show ?thesis by (simp add: tracked_def)
qed

lemma execve_ok:
  assumes "trace_execve reserve t args k = Some k'" "kernel_ok S k"
  shows "kernel_ok S k'"
proof (cases "considered t args k")
  case True
  have info: "entry_ok S (exec_entry t args k)"
    using True assms(2) unfolding exec_entry_def
    by (intro exec_info_ok) (auto simp: considered_def kernel_ok_def dest: fmpredD split: option.split)
  have maps: "kernel_ok S (exec_maps t args k)"
    using assms(2) info
    by (auto simp: exec_maps_def kernel_ok_def intro!: fmpred_map_update dest: fmpredD split: option.split)
  have evt: "wf_event (exec_event t args k)" "event_typed (exec_event t args k)"
    "root_ok S (e_RootPid (exec_event t args k)) (e_RootComm (exec_event t args k))"
    using info by (simp_all add: exec_event_def Let_def wf_event_def event_typed_def entry_ok_def info_ok_def
        emit_def zero_event_def)
  show ?thesis
    using assms(1) True submit_ok [OF _ maps evt] by (simp add: trace_execve_parts)
next
  case False
  with assms show ?thesis by (simp add: trace_execve_parts)
qed

lemma hook_ok:
  assumes "run_hook reserve t h k = Some k'" "kernel_ok S k"
  shows "kernel_ok S k'"
proof (cases "watching h")
  case True
  with assms(1) have "tracked t k (\<lambda>info. case hook_event t h info of
      None \<Rightarrow> Some k | Some e \<Rightarrow> submit reserve t e k) = Some k'" by (simp add: run_hook_event)
  then show ?thesis
  proof (rule tracked_ok [OF _ assms(2)])
    fix info
    assume "entry_ok S info" "(case hook_event t h info of None \<Rightarrow> Some k | Some e \<Rightarrow> submit reserve t e k) = Some k'"
    with assms(2) show "kernel_ok S k'"
      by (cases "hook_event t h info") (auto dest: hook_event_ok intro: submit_ok)
  qed
next
  case False
  then consider args where "h = SysEnterExecve args" | ret where "h = SysExitExecve ret" | "h = SchedProcessExit"
    by (cases h) (auto simp: watching_def)
  then show ?thesis
  proof cases
    case 1
    with assms show ?thesis using execve_ok by simp
  next
    case 2
    with assms show ?thesis
      by (auto simp: trace_execve_exit_def kernel_ok_def Let_def intro!: fmpred_map_update fmpred_drop
          dest: fmpredD split: option.split if_splits)
  next
    case 3
    with assms show ?thesis by (auto simp: trace_exit_def kernel_ok_def intro!: fmpred_drop)
  qed
qed

lemma act_ok:
  assumes "act reserve a k = Some k'" "kernel_ok S k" "seeded [a] \<subseteq> S"
  shows "kernel_ok S k'"
  using assms hook_ok
  by (cases a) (auto simp: kernel_ok_def seeded_def intro!: fmpred_map_update seed_info_ok)

lemma run_ok:
  assumes "run reserve as k = Some k'" "kernel_ok S k" "seeded as \<subseteq> S"
  shows "kernel_ok S k'"
  using assms
proof (induction as arbitrary: k)
  case (Cons a as)
  then obtain k1 where k1: "act reserve a k = Some k1" "run reserve as k1 = Some k'"
    by (auto simp: bind_eq_Some_conv)
  have "seeded [a] \<subseteq> S" "seeded as \<subseteq> S" using Cons.prems(3) by (auto simp: seeded_def)
  with k1 Cons show ?case using act_ok by blast
qed simp

text \<open>A hook leaves the entries of other processes alone.\<close>

lemma hook_frame:
  assumes "run_hook reserve t h k = Some k'" "p \<noteq> tk_pid t"
  shows "fmlookup (k_proc_tree k') p = fmlookup (k_proc_tree k) p \<and>
    fmlookup (k_saved_execs k') p = fmlookup (k_saved_execs k) p"
proof (cases "watching h")
  case True
  with assms(1) show ?thesis
    by (auto simp: run_hook_event tracked_def dest: submit_effect(1,2) split: option.splits)
next
  case False
  then consider args where "h = SysEnterExecve args" | ret where "h = SysExitExecve ret" | "h = SchedProcessExit"
    by (cases h) (auto simp: watching_def)
  then show ?thesis
  proof cases
    case 1
    with assms show ?thesis
      by (auto simp: trace_execve_parts exec_maps_def fmlookup_map_update
          dest: submit_effect(1,2) split: if_splits option.split)
  next
    case 2
    with assms show ?thesis
      by (auto simp: trace_execve_exit_def Let_def fmlookup_map_update split: option.split)
  next
    case 3
    with assms show ?thesis by (auto simp: trace_exit_def)
  qed
qed

lemma run_frame:
  "run reserve as k = Some k' \<Longrightarrow> others p as \<Longrightarrow>
   fmlookup (k_proc_tree k') p = fmlookup (k_proc_tree k) p \<and>
   fmlookup (k_saved_execs k') p = fmlookup (k_saved_execs k) p"
proof (induction as arbitrary: k)
  case (Cons a as)
  from Cons.prems(1) obtain k1 where k1: "act reserve a k = Some k1" "run reserve as k1 = Some k'"
    by (auto simp: bind_eq_Some_conv)
  have "fmlookup (k_proc_tree k1) p = fmlookup (k_proc_tree k) p \<and>
      fmlookup (k_saved_execs k1) p = fmlookup (k_saved_execs k) p"
    using k1(1) Cons.prems(2) hook_frame by (cases a) (auto simp: others_def fmlookup_map_update)
  moreover have "others p as" using Cons.prems(2) by (simp add: others_def)
  ultimately show ?case using Cons.IH [OF k1(2)] by simp
qed simp

lemma run_events: "run reserve as k = Some k' \<Longrightarrow> prefix (k_events k) (k_events k')"
proof (induction as arbitrary: k)
  case (Cons a as)
  from Cons.prems obtain k1 where k1: "act reserve a k = Some k1" "run reserve as k1 = Some k'"
    by (auto simp: bind_eq_Some_conv)
  have "prefix (k_events k) (k_events k1)"
  proof (cases a)
    case (Hook t h)
    show ?thesis
    proof (cases "watching h")
      case True
      with k1(1) Hook show ?thesis
        by (auto simp: run_hook_event tracked_def dest!: submit_effect(3) split: option.splits)
    next
      case False
      with k1(1) Hook show ?thesis
        by (cases h) (auto simp: watching_def trace_execve_parts exec_maps_def trace_execve_exit_def trace_exit_def
            Let_def dest!: submit_effect(3) split: if_splits option.splits)
    qed
  qed (use k1(1) in auto)
  with Cons.IH [OF k1(2)] show ?case by (rule prefix_order.trans [rotated])
qed simp

end

interpretation as_described: slot_reserve reserve_slot
  by unfold_locales (auto simp: reserve_slot_def count_drop_def split: if_splits)

text \<open>As written, the reservation never returns.\<close>

lemma reserve_or_drop_diverges: "reserve_or_drop t k = None"
proof (rule ccontr)
  assume "reserve_or_drop t k \<noteq> None"
  then obtain r where "reserve_or_drop t k = Some r" by blast
  then show False
    by (rule reserve_or_drop.raw_induct [of "\<lambda>_ _ _. False", rotated]) (auto simp: bind_eq_Some_conv)
qed

interpretation as_written: slot_reserve reserve_or_drop
  by unfold_locales (simp add: reserve_or_drop_diverges)


section \<open>Runs\<close>

lemma submit_slot:
  "submit reserve_slot t evt k =
     Some (if tk_room t then k\<lparr>k_events := k_events k @ [encode_event evt]\<rparr> else count_drop k)"
  by (simp add: submit_def reserve_slot_def)

lemma hook_returns: "\<exists>k'. run_hook reserve_slot t h k = Some k'"
proof (cases "watching h")
  case True
  then show ?thesis by (auto simp: run_hook_event tracked_def submit_slot split: option.split)
next
  case False
  then show ?thesis by (cases h) (auto simp: watching_def trace_execve_parts submit_slot)
qed

lemma run_returns: "\<exists>k'. run reserve_slot as k = Some k'"
proof (induction as arbitrary: k)
  case (Cons a as)
  obtain k1 where "act reserve_slot a k = Some k1" using hook_returns by (cases a) (auto, blast)
  with Cons show ?case by simp
qed simp

lemma run_append: "run reserve (as @ bs) k = Option.bind (run reserve as k) (run reserve bs)"
proof (induction as arbitrary: k)
  case (Cons a as)
  then show ?case by (cases "act reserve a k") simp_all
qed simp

lemma boot_ok: "kernel_ok S boot"
  by (simp add: kernel_ok_def boot_def)

lemma boot_run_ok: "run reserve_slot as boot = Some k \<Longrightarrow> kernel_ok (seeded as) k"
  by (rule as_described.run_ok [OF _ boot_ok order_refl])

text \<open>
  C14. The kernel side and the decoder agree: whatever hooks fire, in whatever order and with whatever user
  memory, every record that is submitted decodes to an event whose type, phase and severity are
  values that user space knows.
\<close>

theorem records_typed:
  "\<exists>k. run reserve_slot as boot = Some k \<and>
     list_all (\<lambda>bs. \<exists>e. ReadEvent (RingRecord bs) = Inr (Some e) \<and> event_typed e) (k_events k)"
proof -
  obtain k where k: "run reserve_slot as boot = Some k" using run_returns by blast
  have "list_all (record_ok (seeded as)) (k_events k)"
    using boot_run_ok [OF k] by (simp add: kernel_ok_def)
  then have "list_all (\<lambda>bs. \<exists>e. ReadEvent (RingRecord bs) = Inr (Some e) \<and> event_typed e) (k_events k)"
    by (auto simp: list_all_iff record_ok_def ReadEvent_encoded)
  with k show ?thesis by blast
qed


text \<open>
  C23. As written, the source reports nothing: \<open>reserve_or_drop\<close> calls itself, so a run either does not come
  back or submits no record and counts no drop.
\<close>

theorem written_source_is_silent:
  "case run reserve_or_drop as k of
     None \<Rightarrow> True
   | Some k' \<Rightarrow> k_events k' = k_events k \<and> k_drop_count k' = k_drop_count k"
proof -
  have sub: "submit reserve_or_drop t evt k = None" for t evt k
    by (simp add: submit_def reserve_or_drop_diverges)
  have hook: "k_events k' = k_events k \<and> k_drop_count k' = k_drop_count k"
    if "run_hook reserve_or_drop t h k = Some k'" for t h k k'
  proof (cases "watching h")
    case True
    with that show ?thesis by (auto simp: run_hook_event tracked_def sub split: option.splits)
  next
    case False
    with that show ?thesis
      by (cases h) (auto simp: watching_def trace_execve_parts sub trace_execve_exit_def trace_exit_def Let_def
          split: if_splits option.splits)
  qed
  have "k_events k' = k_events k \<and> k_drop_count k' = k_drop_count k" if "run reserve_or_drop as k = Some k'" for k'
    using that
  proof (induction as arbitrary: k)
    case (Cons a as)
    then obtain k1 where k1: "act reserve_or_drop a k = Some k1" "run reserve_or_drop as k1 = Some k'"
      by (auto simp: bind_eq_Some_conv)
    have "k_events k1 = k_events k \<and> k_drop_count k1 = k_drop_count k"
      using k1(1) hook by (cases a) auto
    with Cons.IH [OF k1(2)] show ?case by simp
  qed simp
  then show ?thesis by (simp split: option.split)
qed


text \<open>
  C22. A failed \<open>execve\<close> of a tracked process, whatever other processes do in between: if the call had been
  considered, the entry from before it is restored; if it had been ignored (the parent is not
  tracked and the program is no known tool), nothing had been saved, and the process is dropped
  from the tree although it goes on running.
\<close>

theorem failed_exec:
  assumes "fmlookup (k_proc_tree k) p = Some info" "fmlookup (k_saved_execs k) p = None"
    and "fcard (fmdom (k_saved_execs k)) < saved_execs_cap"
    and "tk_pid t = p" "tk_pid t' = p" "others p as" "ret \<noteq> 0"
    and "run reserve_slot (Hook t (SysEnterExecve args) # as @ [Hook t' (SysExitExecve ret)]) k = Some k'"
  shows "fmlookup (k_proc_tree k') p = (if considered t args k then Some info else None)"
proof -
  obtain k1 k2 where k1: "trace_execve reserve_slot t args k = Some k1" and k2: "run reserve_slot as k1 = Some k2"
    and k': "k' = trace_execve_exit t' ret k2"
    using assms(8) by (auto simp: run_append bind_eq_Some_conv)
  note frame = as_described.run_frame [OF k2 assms(6)]
  have in_dom: "fmlookup m p = Some v \<Longrightarrow> p |\<in>| fmdom m" for m :: "(u32, ProcInfo) fmap" and v
    by (rule fmdomI)
  show ?thesis
  proof (cases "considered t args k")
    case True
    then have "k_proc_tree k1 = k_proc_tree (exec_maps t args k)" "k_saved_execs k1 = k_saved_execs (exec_maps t args k)"
      using k1 as_described.submit_effect(1,2) by (auto simp: trace_execve_parts)
    then have "fmlookup (k_saved_execs k1) p = Some info" "fmlookup (k_proc_tree k1) p \<noteq> None"
      using assms(1,3,4) in_dom [OF assms(1)] by (auto simp: exec_maps_def fmlookup_map_update)
    with frame in_dom True assms(5,7) show ?thesis
      by (auto simp: k' trace_execve_exit_def Let_def fmlookup_map_update)
  next
    case False
    with k1 have "k1 = k" by (simp add: trace_execve_parts)
    with frame assms(2,5,7) False show ?thesis by (simp add: k' trace_execve_exit_def Let_def)
  qed
qed


text \<open>A C string in user memory at address 4096, and a task that passes it.\<close>

definition c_memory :: "string \<Rightarrow> user_memory" where
  "c_memory s a =
     (let i = unat (a - 4096) in
      if i < length s then Some (byte_of_char (s ! i)) else if i = length s then Some 0 else None)"

definition test_task :: "u32 \<Rightarrow> u32 \<Rightarrow> string \<Rightarrow> Task" where
  "test_task pid ppid s =
     \<lparr>tk_pid = pid, tk_ppid = ppid, tk_ktime = 0, tk_mem = c_memory s, tk_mem2 = c_memory s,
      tk_stdin = None, tk_stack = (\<lambda>_. 0), tk_room = True\<rparr>"

definition npm_seeded :: Kernel where
  "npm_seeded = boot\<lparr>k_proc_tree := fmupd 100 (seed_info 100 ''npm'') fmempty\<rparr>"

text \<open>The seeded \<open>npm\<close>, whose parent is not tracked, tries to run a program that is not there.\<close>

theorem failed_exec_witness:
  "\<exists>k'. run reserve_slot [Hook (test_task 100 1 ''/usr/local/bin/node'') (SysEnterExecve (\<lambda>_. 4096)),
       Hook (test_task 100 1 []) (SysExitExecve (- 2))] npm_seeded = Some k' \<and>
     fmlookup (k_proc_tree k') 100 = None"
proof -
  let ?t = "test_task 100 1 ''/usr/local/bin/node''"
  obtain k' where k': "run reserve_slot (Hook ?t (SysEnterExecve (\<lambda>_. 4096)) # [] @
      [Hook (test_task 100 1 []) (SysExitExecve (- 2))]) npm_seeded = Some k'"
    using run_returns by blast
  have "phase_from_comm (exec_name ?t (\<lambda>_. 4096)) = PhaseUnknown" by code_simp
  then have "\<not> considered ?t (\<lambda>_. 4096) npm_seeded"
    by (simp add: considered_def npm_seeded_def test_task_def)
  then have "fmlookup (k_proc_tree k') 100 = None"
    using failed_exec [OF _ _ _ _ _ _ _ k', of 100 "seed_info 100 ''npm''"]
    by (simp add: npm_seeded_def boot_def saved_execs_cap_def others_def test_task_def fcard.rep_eq)
  with k' show ?thesis by simp
qed

end
