(* ===== verification/Pipeline.thy ===== *)
theory Pipeline
  imports Tracking Monitor
begin

text \<open>
  From a system call to an alert: the hooks of \<open>bpf/chainscope.c\<close>, the decoding of their records and
  the event loop together. \<open>hook_verdicts\<close> and \<open>exec_verdicts\<close> say for a system call of a watched
  process which rules it must raise; the theorems say that the pipeline raises them.
\<close>

section \<open>What a system call should raise\<close>

definition toolchain :: "Phase \<Rightarrow> bool" where
  "toolchain ph \<longleftrightarrow> ph = PhaseCompile \<or> ph = PhaseLink"

text \<open>The address of a \<open>connect\<close>, as the second read of the socket address finds it.\<close>

definition connect_ip :: "Task \<Rightarrow> u64 \<Rightarrow> byte list option" where
  "connect_ip t a =
     (let family = le_val (fst (read_user (tk_mem t) 2 a)) in
      if family = 2 then Some (take 4 (drop 4 (fst (read_user (tk_mem2 t) 16 a))))
      else if family = 10 then Some (take 16 (drop 8 (fst (read_user (tk_mem2 t) 28 a))))
      else None)"

fun hook_verdicts :: "Policy option \<Rightarrow> Task \<Rightarrow> hook \<Rightarrow> ProcInfo \<Rightarrow> (string \<times> Severity) list" where
  "hook_verdicts pol t (SysEnterOpenat args) info =
     (let buf = read_str (tk_mem t) 256 (args 1); path = cstring buf; ph = pi_Phase info in
      if (ucast (args 2) :: u32) AND 3 \<noteq> 0 then
        (if \<not> is_install_path (c_at buf (\<lambda>_. 0) 0) \<or> \<not> system_path path \<or> ph = PhaseInstall then []
         else if ph = PhaseCompile \<or> ph = PhaseBuild then [(''build-writes-system-path'', SevHigh)]
         else if ph = PhasePostinst then [(''postinst-writes-system-path'', SevHigh)]
         else [(''unexpected-install-write'', SevMedium)])
      else if is_sensitive_read_path (c_at buf (\<lambda>_. 0) 0) \<and> sensitive path then
        [(''sensitive-file-read'', if toolchain ph then SevCritical else SevHigh)]
      else [])"
| "hook_verdicts pol t (SysEnterConnect args) info =
     (let ph = pi_Phase info in
      case connect_ip t (args 1) of
        None \<Rightarrow> []
      | Some ip \<Rightarrow>
          if toolchain ph then [(''compiler-network'', SevCritical)]
          else if \<not> fst (IsAllowedIP pol ip) then
            [(''unknown-network'', if ph = PhasePostinst \<or> ph = PhaseBuild then SevHigh else SevMedium)]
          else if ph = PhaseDownload \<or> ph = PhaseInstall then []
          else [(''unexpected-phase-network'', SevLow)])"
| "hook_verdicts pol t (SysEnterMemfdCreate args) info = [(''memfd-create'', SevHigh)]"
| "hook_verdicts pol t (SysEnterExecveat args) info =
     (if bit (args 4) 12 then [(''execveat-anon'', SevCritical)] else [])"
| "hook_verdicts pol t (SysEnterFchmodat args) info =
     (let mode = args 2; path = read_str (tk_mem t) 256 (args 1) in
      if bit mode 10 \<or> bit mode 11 then [(''chmod-suid-sgid'', SevCritical)]
      else if bit mode 0 \<or> bit mode 3 \<or> bit mode 6 then
        [(''chmod-exec-bit'', if is_install_path (c_at path (\<lambda>_. 0) 0) then SevHigh else SevMedium)]
      else [])"
| "hook_verdicts pol t (SysEnterBpf args) info =
     (if (ucast (args 0) :: u32) = 5 then [(''bpf-prog-load'', SevCritical)] else [])"
| "hook_verdicts pol t (Getaddrinfo node) info =
     (if node \<noteq> 0 \<and> toolchain (pi_Phase info) then [(''compiler-dns-lookup'', SevCritical)] else [])"
| "hook_verdicts pol t h info = []"

text \<open>The variables of the environment that an \<open>execve\<close> scans: the first 32, 31 bytes of each.\<close>

fun env_vars :: "user_memory \<Rightarrow> u64 \<Rightarrow> nat \<Rightarrow> nat \<Rightarrow> cstr list" where
  "env_vars mem envp_ptr i 0 = []"
| "env_vars mem envp_ptr i (Suc n) =
     (case read_ptr mem (envp_ptr + 8 * of_nat i) of
        None \<Rightarrow> []
      | Some ep \<Rightarrow> c_at (read_str mem 32 ep) (\<lambda>_. 0) 0 # env_vars mem envp_ptr (i + 1) n)"

text \<open>A variable whose name is one of the known credentials, or holds \<open>SECRET\<close> or \<open>PASSW\<close>.\<close>

definition generic_secret :: "cstr \<Rightarrow> bool" where
  "generic_secret e \<longleftrightarrow>
     (\<exists>i < 26. (\<forall>j \<le> i. e j \<noteq> 0 \<and> e j \<noteq> byte_of_char (CHR ''='')) \<and> (lit e i ''SECRET'' \<or> lit e i ''PASSW''))"

definition credential :: "cstr \<Rightarrow> bool" where
  "credential e \<longleftrightarrow>
     lit e 0 ''AWS_ACCESS'' \<or> lit e 0 ''GITHUB_TOKEN='' \<or> lit e 0 ''NPM_TOKEN='' \<or>
     lit e 0 ''PYPI_TOKEN='' \<or> lit e 0 ''CARGO_REG'' \<or> generic_secret e"

definition exec_verdicts :: "Task \<Rightarrow> (nat \<Rightarrow> u64) \<Rightarrow> (string \<times> Severity) list" where
  "exec_verdicts t args =
     (let fname = c_at (read_str (tk_mem t) 256 (args 0)) (tk_stack t) 0;
          env = env_vars (tk_mem t) (args 2) 0 32
      in
      (if is_temp_path fname then [(''exec-from-temp'', SevHigh)] else []) @
      (if is_shell_comm (exec_name t args) \<and> stdin_is_pipe t
       then [(''shell-stdin-pipe'', SevCritical)] else []) @
      (if \<exists>e \<in> set env. lit e 0 ''LD_PRELOAD='' then [(''ld-preload-injection'', SevCritical)] else []) @
      (if \<exists>e \<in> set env. lit e 0 ''LD_LIBRARY'' then [(''ld-library-path-redirect'', SevHigh)] else []) @
      (if \<exists>e \<in> set env. credential e then [(''credential-in-env'', SevHigh)] else []))"

section \<open>What the rules say of the records\<close>

lemma hook_event_verdicts:
  "fired (case hook_event t h info of None \<Rightarrow> [] | Some e \<Rightarrow> rule_table pol e) = hook_verdicts pol t h info"
proof (cases h)
  case (SysEnterConnect args)
  have "length (fst (read_user (tk_mem2 t) 16 (args 1))) = 16" "length (fst (read_user (tk_mem2 t) 28 (args 1))) = 28"
    by simp_all
  with SysEnterConnect show ?thesis
    by (auto simp: rule_table_def Let_def connect_ip_def connect_addr_def DstIP_def toolchain_def emit_def
        zero_event_def)
next
  case (SysEnterOpenat args)
  then show ?thesis
    by (auto simp: rule_table_def Let_def openat_kind_def PathStr_def toolchain_def)
next
  case (SysEnterFchmodat args)
  then show ?thesis by (auto simp: rule_table_def Let_def bit_simps)
qed (auto simp: rule_table_def Let_def toolchain_def)


lemma bit_flag: "bit (push_bit m 1 :: u32) n \<longleftrightarrow> n = m \<and> m < 32"
  by (auto simp: bit_simps)

lemma flag_bits:
  "bit ExecFlagTempPath n \<longleftrightarrow> n = 0" "bit ExecFlagStdinPipe n \<longleftrightarrow> n = 1" "bit ExecFlagIsShell n \<longleftrightarrow> n = 2"
  "bit EnvFlagLdPreload n \<longleftrightarrow> n = 0" "bit EnvFlagLdLibrary n \<longleftrightarrow> n = 1" "bit EnvFlagAwsKey n \<longleftrightarrow> n = 2"
  "bit EnvFlagGitToken n \<longleftrightarrow> n = 3" "bit EnvFlagNpmToken n \<longleftrightarrow> n = 4" "bit EnvFlagPypiToken n \<longleftrightarrow> n = 5"
  "bit EnvFlagCargoToken n \<longleftrightarrow> n = 6" "bit EnvFlagGenericSec n \<longleftrightarrow> n = 7"
  unfolding exec_flag_defs env_flag_defs bit_flag by simp_all

lemma exec_flags_bits:
  "bit (exec_flags t fname base) n \<longleftrightarrow>
     n = 0 \<and> is_temp_path fname \<or> n = 2 \<and> is_shell_comm base \<or> n = 1 \<and> is_shell_comm base \<and> stdin_is_pipe t"
  by (auto simp: exec_flags_def flag_bits bit_simps)

lemma env_loop_bits:
  "bit (env_loop mem ptr i n flags) k \<longleftrightarrow>
     bit flags k \<or> (\<exists>e \<in> set (env_vars mem ptr i n). bit (check_env_flags e) k)"
  by (induction mem ptr i n flags rule: env_loop.induct) (auto simp: bit_simps split: option.split)

lemma generic_loop_bits:
  "bit (generic_loop e i n) k \<longleftrightarrow>
     k = 7 \<and> (\<exists>m < n. (\<forall>j \<le> m. e (i + j) \<noteq> 0 \<and> e (i + j) \<noteq> byte_of_char (CHR ''='')) \<and>
       (lit e (i + m) ''SECRET'' \<or> lit e (i + m) ''PASSW''))"
proof (induction e i n rule: generic_loop.induct)
  case (2 e i n)
  show ?case
  proof (cases "e i = byte_of_char (CHR ''='') \<or> e i = 0")
    case True
    then have "\<not> (\<forall>j \<le> m. e (i + j) \<noteq> 0 \<and> e (i + j) \<noteq> byte_of_char (CHR ''=''))" for m
      by (auto intro!: exI [of _ 0])
    with True show ?thesis by auto
  next
    case False
    have less_Suc: "(\<exists>m < Suc n. P m) \<longleftrightarrow> P 0 \<or> (\<exists>m < n. P (Suc m))" for P by (rule Ex_less_Suc2)
    have le_Suc: "(\<forall>j \<le> Suc m. Q j) \<longleftrightarrow> Q 0 \<and> (\<forall>j \<le> m. Q (Suc j))" for Q and m :: nat
      using All_less_Suc2 [of "Suc m" Q] by (simp only: less_Suc_eq_le)
    define Q where "Q m \<longleftrightarrow> (\<forall>j \<le> m. e (i + 1 + j) \<noteq> 0 \<and> e (i + 1 + j) \<noteq> byte_of_char (CHR ''='')) \<and>
      (lit e (i + 1 + m) ''SECRET'' \<or> lit e (i + 1 + m) ''PASSW'')" for m
    have IH: "bit (generic_loop e (i + 1) n) k \<longleftrightarrow> k = 7 \<and> (\<exists>m < n. Q m)"
      using "2.IH" False unfolding Q_def by blast
    have "bit (generic_loop e i (Suc n)) k \<longleftrightarrow>
        k = 7 \<and> (lit e i ''SECRET'' \<or> lit e i ''PASSW'' \<or> (\<exists>m < n. Q m))"
      using False IH by (simp add: bit_or_iff if_distrib [of "\<lambda>w. bit w k"] flag_bits del: lit.simps) blast
    moreover have "(\<forall>j \<le> Suc m. e (i + j) \<noteq> 0 \<and> e (i + j) \<noteq> byte_of_char (CHR ''='')) \<and>
        (lit e (i + Suc m) ''SECRET'' \<or> lit e (i + Suc m) ''PASSW'') \<longleftrightarrow> Q m" for m
      using False unfolding Q_def le_Suc by (simp del: lit.simps)
    ultimately show ?thesis
      using False unfolding less_Suc by (simp del: lit.simps generic_loop.simps)
  qed
qed simp

lemma check_env_bits:
  "bit (check_env_flags e) 0 \<longleftrightarrow> lit e 0 ''LD_PRELOAD=''"
  "bit (check_env_flags e) 1 \<longleftrightarrow> lit e 0 ''LD_LIBRARY''"
  "(\<exists>k \<ge> 2. bit (check_env_flags e) k) \<longleftrightarrow> credential e"
proof -
  have b: "bit (check_env_flags e) k \<longleftrightarrow>
     k = 0 \<and> lit e 0 ''LD_PRELOAD='' \<or> k = 1 \<and> lit e 0 ''LD_LIBRARY'' \<or> k = 2 \<and> lit e 0 ''AWS_ACCESS'' \<or>
     k = 3 \<and> lit e 0 ''GITHUB_TOKEN='' \<or> k = 4 \<and> lit e 0 ''NPM_TOKEN='' \<or> k = 5 \<and> lit e 0 ''PYPI_TOKEN='' \<or>
     k = 6 \<and> lit e 0 ''CARGO_REG'' \<or> k = 7 \<and> generic_secret e" for k
    by (simp add: check_env_flags_def bit_or_iff if_distrib [of "\<lambda>w. bit w k"] flag_bits generic_loop_bits
        generic_secret_def conj_commute del: lit.simps generic_loop.simps One_nat_def)
  show "bit (check_env_flags e) 0 \<longleftrightarrow> lit e 0 ''LD_PRELOAD=''"
    "bit (check_env_flags e) 1 \<longleftrightarrow> lit e 0 ''LD_LIBRARY''"
    "(\<exists>k \<ge> 2. bit (check_env_flags e) k) \<longleftrightarrow> credential e"
    unfolding b credential_def by (simp_all add: conj_disj_distribL ex_disj_distrib del: lit.simps)
qed

lemma exec_event_verdicts: "fired (rule_table pol (exec_event t args k)) = exec_verdicts t args"
proof -
  define env where "env = env_vars (tk_mem t) (args 2) 0 32"
  have flags: "bit (e_EnvFlags (exec_event t args k)) n \<longleftrightarrow> (\<exists>e \<in> set env. bit (check_env_flags e) n)" for n
    by (simp add: exec_event_def Let_def env_loop_bits env_def del: env_loop.simps env_vars.simps)
  have env: "bit (e_EnvFlags (exec_event t args k)) 0 \<longleftrightarrow> (\<exists>e \<in> set env. lit e 0 ''LD_PRELOAD='')"
    "bit (e_EnvFlags (exec_event t args k)) 1 \<longleftrightarrow> (\<exists>e \<in> set env. lit e 0 ''LD_LIBRARY'')"
    "(\<exists>k'\<ge>2. bit (e_EnvFlags (exec_event t args k)) k') \<longleftrightarrow> (\<exists>e \<in> set env. credential e)"
    unfolding flags check_env_bits(1,2) by (rule refl)+ (use check_env_bits(3) in blast)
  have ex: "e_ExecFlags (exec_event t args k) =
      exec_flags t (c_at (read_str (tk_mem t) 256 (args 0)) (tk_stack t) 0) (exec_name t args)"
    "e_EventType (exec_event t args k) = EvtExec"
    by (simp_all add: exec_event_def Let_def)
  show ?thesis
    unfolding rule_table_def Let_def env ex exec_flags_bits exec_verdicts_def env_def [symmetric]
    by (simp del: lit.simps One_nat_def)
qed


section \<open>From the system call to the log of alerts\<close>

text \<open>What a hook should raise in a kernel state, and the root process it is raised for.\<close>

definition act_verdicts :: "Policy option \<Rightarrow> Kernel \<Rightarrow> Task \<Rightarrow> hook \<Rightarrow> (string \<times> Severity) list" where
  "act_verdicts pol k t h =
     (case h of
        SysEnterExecve args \<Rightarrow> (if considered t args k then exec_verdicts t args else [])
      | _ \<Rightarrow> (case fmlookup (k_proc_tree k) (tk_pid t) of
                None \<Rightarrow> [] | Some info \<Rightarrow> hook_verdicts pol t h info))"

definition act_root :: "Kernel \<Rightarrow> Task \<Rightarrow> hook \<Rightarrow> u32" where
  "act_root k t h =
     (case h of
        SysEnterExecve args \<Rightarrow> pi_RootPid (exec_entry t args k)
      | _ \<Rightarrow> (case fmlookup (k_proc_tree k) (tk_pid t) of None \<Rightarrow> 0 | Some info \<Rightarrow> pi_RootPid info))"

lemma hook_event_root: "hook_event t h info = Some e \<Longrightarrow> e_RootPid e = pi_RootPid info"
  by (cases h) (auto simp: Let_def connect_addr_def emit_def split: if_splits)

text \<open>The record of a hook that should raise something: its place in the ring buffer and its verdicts.\<close>

lemma hook_record:
  assumes "kernel_ok S k" "tk_room t" "act_verdicts pol k t h \<noteq> []" "run_hook reserve_slot t h k = Some k'"
  obtains e where "k_events k' = k_events k @ [encode_event e]" "wf_event e"
    "fired (rule_table pol e) = act_verdicts pol k t h" "e_RootPid e = act_root k t h"
proof (cases "\<exists>args. h = SysEnterExecve args")
  case True
  then obtain args where h: "h = SysEnterExecve args" by blast
  with assms(3) have c: "considered t args k" by (auto simp: act_verdicts_def split: if_splits)
  have "entry_ok S (exec_entry t args k)"
    using c assms(1) unfolding exec_entry_def
    by (intro exec_info_ok) (auto simp: considered_def kernel_ok_def dest: fmpredD split: option.split)
  then have "wf_event (exec_event t args k)"
    by (simp add: exec_event_def Let_def wf_event_def entry_ok_def info_ok_def emit_def zero_event_def)
  moreover have "k_events k' = k_events k @ [encode_event (exec_event t args k)]"
    using assms(2,4) c by (auto simp: h trace_execve_parts submit_slot exec_maps_def)
  moreover have "e_RootPid (exec_event t args k) = act_root k t h"
    by (simp add: act_root_def h exec_event_def Let_def)
  ultimately show thesis
    using c by (intro that) (simp_all add: act_verdicts_def h exec_event_verdicts)
next
  case False
  with assms(3) have w: "watching h"
    by (cases h) (auto simp: watching_def act_verdicts_def split: option.splits)
  obtain info where info: "fmlookup (k_proc_tree k) (tk_pid t) = Some info" "act_verdicts pol k t h = hook_verdicts pol t h info"
      "act_root k t h = pi_RootPid info"
    using assms(3) False by (cases h) (auto simp: act_verdicts_def act_root_def split: option.splits)
  obtain e where e: "hook_event t h info = Some e"
    using assms(3) hook_event_verdicts [where t = t and h = h and info = info and pol = pol] info(2) by (cases "hook_event t h info") auto
  have "entry_ok S info" using assms(1) info(1) by (auto simp: kernel_ok_def dest: fmpredD)
  then have "wf_event e" using hook_event_ok [OF e] by blast
  moreover have "k_events k' = k_events k @ [encode_event e]"
    using assms(2,4) w info(1) e by (auto simp: run_hook_event tracked_def submit_slot)
  ultimately show thesis
    using hook_event_verdicts [where t = t and h = h and info = info and pol = pol] hook_event_root [OF e] info e by (intro that) simp_all
qed

text \<open>The records of a run, delivered in order, are all handled.\<close>

lemma handled_records:
  assumes "list_all (record_ok S) rs" "length envs = length rs" "i < length rs" "rs ! i = encode_event e" "wf_event e"
  shows "(envs ! i, e) \<in> set (handled (zip (map RingRecord rs) envs))"
  using assms
proof (induction rs arbitrary: envs i)
  case (Cons r rs)
  obtain env envs' where envs: "envs = env # envs'" using Cons.prems(2) by (cases envs) auto
  obtain e0 where r: "r = encode_event e0" "wf_event e0" using Cons.prems(1) by (auto simp: record_ok_def)
  show ?case
  proof (cases i)
    case 0
    with Cons.prems(4,5) r have "ReadEvent (RingRecord r) = Inr (Some e)" by (simp add: ReadEvent_encoded)
    with 0 show ?thesis by (simp add: envs)
  next
    case (Suc j)
    have "(envs' ! j, e) \<in> set (handled (zip (map RingRecord rs) envs'))"
      using Cons.prems Suc by (intro Cons.IH) (simp_all add: envs)
    with Suc show ?thesis by (simp add: envs r ReadEvent_encoded)
  qed
qed simp

text \<open>The record of such a system call is handled, and the log covers what its rules say.\<close>

lemma call_logged:
  assumes "run reserve_slot as boot = Some k" "tk_room t"
    and "run reserve_slot (as @ Hook t h # as') boot = Some k'"
    and "length envs = length (k_events k')" "sorted (map v_now envs)"
    and "(rule, sev) \<in> set (act_verdicts (c_policy cfg) k t h)"
  shows "\<exists>time a. (time, a) \<in> set (dedup_log
      (trace cfg (zip (map RingRecord (k_events k')) envs) (start_state learner sarif met))) \<and>
    a_Rule a = rule \<and> e_RootPid (a_Event a) = act_root k t h \<and>
    time \<le> v_now (envs ! length (k_events k)) \<and> v_now (envs ! length (k_events k)) - time < dedupTTL"
proof -
  let ?rs = "k_events k'"
  obtain k1 where k1: "run_hook reserve_slot t h k = Some k1" "run reserve_slot as' k1 = Some k'"
    using assms(1,3) by (auto simp: run_append bind_eq_Some_conv)
  have "act_verdicts (c_policy cfg) k t h \<noteq> []" using assms(6) by auto
  from hook_record [OF boot_run_ok [OF assms(1)] assms(2) this k1(1)] obtain e where
    e: "k_events k1 = k_events k @ [encode_event e]" "wf_event e"
      "fired (rule_table (c_policy cfg) e) = act_verdicts (c_policy cfg) k t h" "e_RootPid e = act_root k t h" .
  have i: "length (k_events k) < length ?rs" "?rs ! length (k_events k) = encode_event e"
    using as_described.run_events [OF k1(2)] by (auto simp: e(1) prefix_def nth_append)
  have "list_all (record_ok (seeded (as @ Hook t h # as'))) ?rs"
    using boot_run_ok [OF assms(3)] by (simp add: kernel_ok_def)
  from handled_records [OF this assms(4) i e(2)]
  have "(envs ! length (k_events k), e) \<in> set (handled (zip (map RingRecord ?rs) envs))" .
  moreover have "sorted (map (v_now \<circ> snd) (zip (map RingRecord ?rs) envs))"
    using assms(4,5) by (simp flip: map_map)
  ultimately show ?thesis
    using log_covers [of "zip (map RingRecord ?rs) envs" _ e rule sev cfg learner sarif met] assms(6) e(3,4)
    by simp
qed

text \<open>
  C3. From the system call to the alert. Let a watched process make a system call at any point of any run of
  the hooks, with room in the ring buffer, and let the monitor handle the submitted records in
  their order under a clock that does not go backwards. Then each rule that the system call should
  raise is in the log of alerts, for the root of the process, not later than its record and less
  than the five seconds of the deduplicator before it.
\<close>

theorem system_calls_reported:
  assumes "run reserve_slot as boot = Some k" "tk_room t"
    and "run reserve_slot (as @ Hook t h # as') boot = Some k'"
    and "length envs = length (k_events k')" "sorted (map v_now envs)"
    and "(rule, sev) \<in> set (act_verdicts (c_policy cfg) k t h)"
  shows "\<exists>time a. (time, a) \<in> set (dedup_log
      (trace cfg (zip (map RingRecord (k_events k')) envs) (start_state learner sarif met))) \<and>
    a_Rule a = rule \<and> e_RootPid (a_Event a) = act_root k t h \<and>
    time \<le> v_now (envs ! length (k_events k)) \<and> v_now (envs ! length (k_events k)) - time < dedupTTL"
  using assms by (rule call_logged)

text \<open>A seeded process that loads a BPF program.\<close>

lemma seeded_load:
  obtains k k' where "run reserve_slot [Seed pid comm] boot = Some k"
    "run reserve_slot ([Seed pid comm] @ Hook (test_task pid 1 []) (SysEnterBpf (\<lambda>_. 5)) # []) boot = Some k'"
    "k_events k = []" "length (k_events k') = 1"
    "(''bpf-prog-load'', SevCritical) \<in> set (act_verdicts pol k (test_task pid 1 []) (SysEnterBpf (\<lambda>_. 5)))"
    "act_root k (test_task pid 1 []) (SysEnterBpf (\<lambda>_. 5)) = pid"
proof -
  let ?t = "test_task pid 1 []" and ?h = "SysEnterBpf (\<lambda>_. 5)"
  define k where "k = boot\<lparr>k_proc_tree := fmupd pid (seed_info pid comm) fmempty\<rparr>"
  have k: "run reserve_slot [Seed pid comm] boot = Some k"
    by (simp add: k_def boot_def map_update_def proc_tree_cap_def fcard.rep_eq)
  obtain k' where k': "run reserve_slot ([Seed pid comm] @ Hook ?t ?h # []) boot = Some k'"
    using run_returns by blast
  then have "run_hook reserve_slot ?t ?h k = Some k'"
    using k unfolding run_append by (simp add: bind_eq_Some_conv)
  then have "length (k_events k') = 1"
    by (auto simp: trace_bpf_def tracked_def k_def boot_def test_task_def submit_slot)
  moreover have "(''bpf-prog-load'', SevCritical) \<in> set (act_verdicts pol k ?t ?h)" "act_root k ?t ?h = pid"
    by (simp_all add: act_verdicts_def act_root_def k_def test_task_def seed_info_def Let_def seed_loop_fields)
  moreover have "k_events k = []" by (simp add: k_def boot_def)
  ultimately show thesis using k k' that by blast
qed

theorem system_calls_reported_witness:
  "\<exists>k' time a. run reserve_slot [Seed 100 ''npm'', Hook (test_task 100 1 []) (SysEnterBpf (\<lambda>_. 5))] boot = Some k' \<and>
     (time, a) \<in> set (dedup_log
       (trace plain_config (zip (map RingRecord (k_events k')) [at_time 0]) (start_state None None None))) \<and>
     a_Rule a = ''bpf-prog-load'' \<and> e_RootPid (a_Event a) = 100"
proof -
  let ?t = "test_task 100 1 []" and ?h = "SysEnterBpf (\<lambda>_. 5)"
  obtain k k' where k: "run reserve_slot [Seed 100 ''npm''] boot = Some k"
    "run reserve_slot ([Seed 100 ''npm''] @ Hook ?t ?h # []) boot = Some k'"
    "k_events k = []" "length (k_events k') = 1"
    "(''bpf-prog-load'', SevCritical) \<in> set (act_verdicts (c_policy plain_config) k ?t ?h)"
    "act_root k ?t ?h = 100" using seeded_load .
  have "\<exists>time a. (time, a) \<in> set (dedup_log
      (trace plain_config (zip (map RingRecord (k_events k')) [at_time 0]) (start_state None None None))) \<and>
    a_Rule a = ''bpf-prog-load'' \<and> e_RootPid (a_Event a) = act_root k ?t ?h \<and>
    time \<le> v_now ([at_time 0] ! length (k_events k)) \<and>
    v_now ([at_time 0] ! length (k_events k)) - time < dedupTTL"
    by (rule system_calls_reported [OF k(1) _ k(2) _ _ k(5)]) (simp_all add: test_task_def k(4))
  with k(2,6) show ?thesis by auto
qed

section \<open>Reads that never reach the rules\<close>

text \<open>Paths that the rule \<open>sensitive-file-read\<close> names but the kernel side filters out.\<close>

definition missed_paths :: "string list" where
  "missed_paths =
     [''/etc/gshadow'', ''/home/dev/.gcp/key.json'', ''/home/dev/server.pem'', ''/home/dev/id_rsa'',
      ''/home/dev/credentials'']"

text \<open>
  C24. The two filters disagree: a watched process can read these files, each sensitive to the detector,
  without any record being submitted, so no alert is ever raised for them.
\<close>

theorem sensitive_reads_missed:
  assumes "s \<in> set missed_paths" "tk_mem t = c_memory s" "args 1 = 4096" "args 2 = 0"
  shows "isSensitivePath s \<and> run_hook reserve_slot t (SysEnterOpenat args) k = Some k"
proof -
  have "list_all (\<lambda>s. isSensitivePath s \<and> \<not> is_sensitive_read_path (c_at (read_str (c_memory s) 256 4096) (\<lambda>_. 0) 0))
      missed_paths" by code_simp
  with assms(1) have s: "isSensitivePath s" "\<not> is_sensitive_read_path (c_at (read_str (c_memory s) 256 4096) (\<lambda>_. 0) 0)"
    by (auto simp: list_all_iff)
  then have "hook_event t (SysEnterOpenat args) info = None" for info
    using assms(2-4) by (simp add: Let_def openat_kind_def)
  then have "run_hook reserve_slot t (SysEnterOpenat args) k = Some k"
    by (simp add: run_hook_event watching_def tracked_def split: option.split del: run_hook.simps hook_event.simps)
  with s show ?thesis by simp
qed

theorem sensitive_reads_missed_witness:
  "isSensitivePath ''/etc/gshadow'' \<and>
   run_hook reserve_slot (test_task 100 1 ''/etc/gshadow'')
     (SysEnterOpenat (\<lambda>i. if i = 1 then 4096 else 0)) npm_seeded = Some npm_seeded"
  by (rule sensitive_reads_missed) (simp_all add: missed_paths_def test_task_def)

section \<open>Processes that are lost\<close>

text \<open>
  \<open>sched_process_exit\<close> fires for every thread, and the handler removes the entry of the whole
  process: after a thread has exited the process is not watched, and its system calls (other than
  the \<open>execve\<close> of a known tool or below a watched parent) leave no record.
\<close>

lemma thread_exit_unwatched:
  assumes "run_hook reserve_slot t SchedProcessExit k = Some k1" "tk_pid t' = tk_pid t" "watching h"
  shows "run_hook reserve_slot t' h k1 = Some k1"
  using assms by (auto simp: run_hook_event trace_exit_def tracked_def)

text \<open>
  There is no hook for \<open>fork\<close>, so a process that has not run \<open>execve\<close> itself is not in the tree: a
  program it starts, unless it is a known tool, is ignored although it descends from a watched
  process.
\<close>

lemma grandchild_ignored:
  assumes "fmlookup (k_proc_tree k) (tk_ppid t) = None" "phase_from_comm (exec_name t args) = PhaseUnknown"
  shows "run_hook reserve_slot t (SysEnterExecve args) k = Some k"
  using assms by (simp add: trace_execve_parts considered_def)

end
