(* ===== verification/Gate.thy ===== *)
theory Gate
  imports Ci Pipeline
begin

text \<open>
  What \<open>chainscope ci\<close> promises, from the system call to the exit status: its event loop
  (\<open>ci_loop\<close>) raises the alerts of the event loop of \<open>main\<close> (\<open>monitor_loop\<close>) without learner and
  baseline, so what \<open>Monitor\<close> and \<open>Pipeline\<close> show of that one decides the gate.
\<close>

section \<open>The two event loops\<close>

text \<open>The state of \<open>runCI\<close> as one of \<open>main\<close>, up to the lines printed so far.\<close>

definition as_monitor :: "string list \<Rightarrow> CiState \<Rightarrow> State" where
  "as_monitor out st =
     \<lparr>st_tree = st_tree st, st_dedup = st_dedup st, st_learner = st_learner st,
      st_sarif = st_sarif st, st_met = st_met st, st_out = out\<rparr>"

lemma as_monitor_fields [simp]:
  "st_tree (as_monitor out st) = st_tree st" "st_dedup (as_monitor out st) = st_dedup st"
  "st_learner (as_monitor out st) = st_learner st" "st_sarif (as_monitor out st) = st_sarif st"
  "st_met (as_monitor out st) = st_met st" "st_out (as_monitor out st) = out"
  by (simp_all add: as_monitor_def)

lemma ci_emit_alerts_fields:
  "st_tree (ci_emit_alerts cfg t env i as st) = st_tree st"
  "st_dedup (ci_emit_alerts cfg t env i as st) = st_dedup st"
  "st_learner (ci_emit_alerts cfg t env i as st) = st_learner st"
  "st_met (ci_emit_alerts cfg t env i as st) = map_option (record_all (alert_pairs as)) (st_met st)"
  "st_out (ci_emit_alerts cfg t env i as st) =
     st_out st @ map (\<lambda>(i, a). WriteAlert (c_writer cfg) (v_stamp env i) a) (enumerate i as)"
  by (induction as arbitrary: i st)
    (simp_all add: ci_emit_alert_def Let_def emit_alert_def alert_pairs_def record_all_fun
      option.map_comp option.map_id)

lemma ci_step_alerts_monitor:
  assumes "c_enforcer cfg = None" "st_learner st = None" "ci_step_alerts cfg env evt st = (st', as)"
  shows "step_alerts cfg env evt (as_monitor out st) = (as_monitor out st', as)"
    and "st_learner st' = None" "st_out st' = st_out st"
  using assms
  by (auto simp: ci_step_alerts_def step_alerts_def Let_def track_exec_def record_event_def
      learn_event_def detect_def enforce_def as_monitor_def split: prod.splits)

text \<open>One iteration: the same alerts, and states that differ in the printed lines only.\<close>

lemma ci_step_monitor:
  assumes "c_enforcer cfg = None" "st_learner st = None"
  shows "snd (step_alerts cfg env evt (as_monitor out st)) = snd (ci_step_alerts cfg env evt st)"
    and "\<exists>out'. monitor_step cfg env evt (as_monitor out st) = as_monitor out' (ci_step cfg t env evt st)"
    and "st_learner (ci_step cfg t env evt st) = None"
    and "st_out (ci_step cfg t env evt st) = st_out st @
      (let as = snd (ci_step_alerts cfg env evt st) in
       map (\<lambda>(i, a). WriteAlert (c_writer cfg) (v_stamp env i) a) (enumerate 0 as) @
       (if c_verbose cfg then [WriteEvent (c_writer cfg) (v_stamp env (length as)) evt] else []))"
proof -
  obtain st' as where s: "ci_step_alerts cfg env evt st = (st', as)" by force
  note m = ci_step_alerts_monitor [OF assms s]
  show "snd (step_alerts cfg env evt (as_monitor out st)) = snd (ci_step_alerts cfg env evt st)"
    by (simp add: m(1) s)
  note f = monitor_step_fields [OF m(1) [of out]]
  have "st_learner (monitor_step cfg env evt (as_monitor out st)) = None"
    using m(2) by (simp add: monitor_step_def m(1) Let_def write_event_def)
  with f show "\<exists>out'. monitor_step cfg env evt (as_monitor out st) = as_monitor out' (ci_step cfg t env evt st)"
    using m(2) ci_step_sarif [of cfg t env evt st]
    by (intro exI [of _ "st_out (monitor_step cfg env evt (as_monitor out st))"] State.equality)
      (simp_all add: ci_step_def s Let_def write_event_def ci_emit_alerts_fields)
  show "st_learner (ci_step cfg t env evt st) = None"
    using m(2) by (simp add: ci_step_def s Let_def write_event_def ci_emit_alerts_fields)
  show "st_out (ci_step cfg t env evt st) = st_out st @
      (let as = snd (ci_step_alerts cfg env evt st) in
       map (\<lambda>(i, a). WriteAlert (c_writer cfg) (v_stamp env i) a) (enumerate 0 as) @
       (if c_verbose cfg then [WriteEvent (c_writer cfg) (v_stamp env (length as)) evt] else []))"
    by (simp add: ci_step_def s Let_def write_event_def ci_emit_alerts_fields m(3))
qed

text \<open>What a run of \<open>runCI\<close> prints: unlike \<open>main\<close>, with the verbose flag every event too.\<close>

definition ci_lines :: "Config \<Rightarrow> (StepEnv \<times> ChainEvent \<times> Alert list) list \<Rightarrow> string list" where
  "ci_lines cfg tr = concat (map (\<lambda>(env, evt, as).
     map (\<lambda>(i, a). WriteAlert (c_writer cfg) (v_stamp env i) a) (enumerate 0 as) @
     (if c_verbose cfg then [WriteEvent (c_writer cfg) (v_stamp env (length as)) evt] else [])) tr)"

lemma ci_loop_monitor:
  assumes "c_enforcer cfg = None"
  shows "st_learner st = None \<Longrightarrow>
    (\<exists>out'. monitor_loop cfg reads (as_monitor out st) = as_monitor out' (ci_loop cfg t reads st)) \<and>
    trace_alerts (trace cfg reads (as_monitor out st)) = ci_alerts cfg t reads st \<and>
    st_out (ci_loop cfg t reads st) = st_out st @ ci_lines cfg (trace cfg reads (as_monitor out st))"
proof (induction reads arbitrary: st out)
  case (Cons r reads)
  obtain res env where r: "r = (res, env)" by force
  show ?case
  proof (cases "ReadEvent res")
    case (Inl err)
    then show ?thesis using Cons.IH [OF Cons.prems, of out] by (simp add: r monitor_loop_simps)
  next
    case (Inr x)
    show ?thesis
    proof (cases x)
      case (Some evt)
      note s = ci_step_monitor [OF assms Cons.prems]
      obtain out' where o:
        "monitor_step cfg env evt (as_monitor out st) = as_monitor out' (ci_step cfg t env evt st)"
        using s(2) by blast
      from Cons.IH [OF s(3), where out = out'] show ?thesis
        using Inr Some by (simp add: r monitor_loop_simps o s(1,4) ci_lines_def Let_def)
    qed (use Inr in \<open>auto simp: r monitor_loop_simps ci_lines_def\<close>)
  qed
qed (auto simp: ci_lines_def)

lemma ci_config_enforcer [simp]: "c_enforcer (ci_config env flags pol) = None"
  by (simp add: ci_config_def)

lemma ci_start_monitor:
  "as_monitor [] (ci_start flags) = start_state None (st_sarif (ci_start flags)) (st_met (ci_start flags))"
  "st_learner (ci_start flags) = None" "st_out (ci_start flags) = []"
  by (simp_all add: as_monitor_def start_state_def ci_start_def)

lemma ci_alerts_trace:
  "ci_alerts (ci_config env flags pol) t reads (ci_start flags) =
   trace_alerts (trace (ci_config env flags pol) reads
     (start_state None (st_sarif (ci_start flags)) (st_met (ci_start flags))))"
  using ci_loop_monitor [of "ci_config env flags pol" "ci_start flags" reads "[]" t]
  by (simp add: ci_start_monitor)

text \<open>
  C5. The subcommand monitors like \<open>main\<close>. Its event loop raises the alerts, in order, that the event loop
  of \<open>main\<close> raises without learner and baseline, and leaves the same process tree, deduplicator,
  report and metrics. It differs in what it prints with the verbose flag: every event, where
  \<open>main\<close> prints those without alerts.
\<close>

theorem ci_runs_monitor:
  "let cfg = ci_config env flags pol; st0 = ci_start flags;
       mon = start_state None (st_sarif st0) (st_met st0);
       tr = trace cfg reads mon; m = monitor_loop cfg reads mon; st = ci_loop cfg threshold reads st0
   in ci_alerts cfg threshold reads st0 = trace_alerts tr \<and>
      st_tree st = st_tree m \<and> st_dedup st = st_dedup m \<and> st_sarif st = st_sarif m \<and>
      st_met st = st_met m \<and> st_out st = ci_lines cfg tr"
  using ci_loop_monitor [of "ci_config env flags pol" "ci_start flags" reads "[]" threshold]
  by (auto simp: ci_start_monitor Let_def)

section \<open>The severities of the rules\<close>

text \<open>The least severity an alert of a rule can have.\<close>

definition rule_floor :: "string \<Rightarrow> Severity" where
  "rule_floor rule =
     (if rule \<in> {''shell-stdin-pipe'', ''ld-preload-injection'', ''compiler-network'', ''execveat-anon'',
          ''chmod-suid-sgid'', ''compiler-dns-lookup'', ''bpf-prog-load''} then SevCritical
      else if rule \<in> {''exec-from-temp'', ''ld-library-path-redirect'', ''credential-in-env'',
          ''sensitive-file-read'', ''build-writes-system-path'', ''postinst-writes-system-path'',
          ''memfd-create''} then SevHigh
      else if rule \<in> {''unknown-network'', ''unexpected-install-write''} then SevMedium
      else if rule = ''unexpected-phase-network'' then SevLow
      else SevInfo)"

lemma rule_floors:
  "rule_floor ''shell-stdin-pipe'' = 4" "rule_floor ''ld-preload-injection'' = 4"
  "rule_floor ''compiler-network'' = 4" "rule_floor ''execveat-anon'' = 4"
  "rule_floor ''chmod-suid-sgid'' = 4" "rule_floor ''compiler-dns-lookup'' = 4"
  "rule_floor ''bpf-prog-load'' = 4" "rule_floor ''exec-from-temp'' = 3"
  "rule_floor ''ld-library-path-redirect'' = 3" "rule_floor ''credential-in-env'' = 3"
  "rule_floor ''sensitive-file-read'' = 3" "rule_floor ''build-writes-system-path'' = 3"
  "rule_floor ''postinst-writes-system-path'' = 3" "rule_floor ''memfd-create'' = 3"
  "rule_floor ''unknown-network'' = 2" "rule_floor ''unexpected-install-write'' = 2"
  "rule_floor ''unexpected-phase-network'' = 1" "rule_floor ''chmod-exec-bit'' = 0"
  by (simp_all add: rule_floor_def)

lemma table_floor: "list_all (\<lambda>(rule, c, sev). rule_floor rule \<le> sev) (rule_table pol e)"
  unfolding rule_table_def Let_def list.pred_inject prod.case rule_floors by simp

lemma fired_floor: "(rule, sev) \<in> set (fired (rule_table pol e)) \<Longrightarrow> rule_floor rule \<le> sev"
  using table_floor [of pol e] by (auto simp: fired_def list_all_iff)

text \<open>What is in the log was raised, with a severity its rule can have.\<close>

lemma step_floor:
  assumes "step_alerts cfg env evt st = (st', as)" "a \<in> set (filter from_detector as)"
  shows "rule_floor (a_Rule a) \<le> a_Severity a"
proof -
  let ?d = "\<lparr>d_tree = st_tree st', d_policy = c_policy cfg\<rparr>"
  obtain out where fl: "Filter (v_now env) (Check (c_pr cfg) ?d evt) (st_dedup st) = (st_dedup st', out)"
    "as = enrich_alerts (st_tree st') evt (out @ enforce cfg evt)" using step_detect [OF assms(1)] .
  obtain b where b: "b \<in> set (out @ enforce cfg evt)" "a = enriched (st_tree st') evt b" "from_detector b"
  proof -
    from assms(2) obtain b where "b \<in> set (out @ enforce cfg evt)" "a = enriched (st_tree st') evt b"
      by (auto simp: fl(2) enrich_alerts_map)
    with assms(2) show thesis by (intro that) (auto simp: from_detector_def)
  qed
  then have "b \<in> set (Check (c_pr cfg) ?d evt)"
    using Filter_incl [OF fl(1)] enforce_not_detector [of cfg evt] by (auto simp: filter_empty_conv)
  then have "(a_Rule b, a_Severity b) \<in> set (verdicts (Check (c_pr cfg) ?d evt))"
    by (simp add: verdicts_def)
  then have "(a_Rule b, a_Severity b) \<in> set (fired (rule_table (c_policy cfg) evt))"
    by (simp add: verdicts_Check)
  from fired_floor [OF this] show ?thesis by (simp add: b(2))
qed

lemma log_raised:
  "(time, a) \<in> set (dedup_log (trace cfg reads st)) \<longrightarrow>
   a \<in> set (trace_alerts (trace cfg reads st)) \<and> rule_floor (a_Rule a) \<le> a_Severity a"
proof (induction rule: monitor_loop_induct [where cfg = cfg and
      P = "\<lambda>reads st. (time, a) \<in> set (dedup_log (trace cfg reads st)) \<longrightarrow>
        a \<in> set (trace_alerts (trace cfg reads st)) \<and> rule_floor (a_Rule a) \<le> a_Severity a"])
  case (event res env reads st evt)
  obtain st' as where s: "step_alerts cfg env evt st = (st', as)" using step_alerts_pair by blast
  from event step_floor [OF s, of a] show ?case by (auto simp: monitor_loop_simps s)
qed (simp_all add: monitor_loop_simps)

section \<open>The gate\<close>

text \<open>At most five alerts for each read.\<close>

lemma ci_alerts_length: "length (ci_alerts cfg t reads st) \<le> 5 * length reads"
proof (induction reads arbitrary: st)
  case (Cons r reads)
  obtain res env where r: "r = (res, env)" by force
  have "length (snd (ci_step_alerts cfg env evt st)) \<le> 5" for evt
  proof -
    obtain st' as where s: "ci_step_alerts cfg env evt st = (st', as)" by force
    obtain out where o: "Filter (v_now env) (Check (c_pr cfg) \<lparr>d_tree = st_tree st', d_policy = c_policy cfg\<rparr> evt)
        (st_dedup st) = (st_dedup st', out)" "as = enrich_alerts (st_tree st') evt out"
      using ci_step_detect [OF s] .
    have "length out \<le> 5"
      using order_trans [OF Filter_length Check_length, of "v_now env" "c_pr cfg"
          "\<lparr>d_tree = st_tree st', d_policy = c_policy cfg\<rparr>" evt "st_dedup st"] by (simp add: o(1))
    then show ?thesis by (simp add: s o(2) enrich_alerts_map)
  qed
  then show ?case
    using Cons by (auto simp: r add_mono trans_le_add2 split: sum.split option.split)
qed simp

text \<open>An alert in the log of the monitor, at or above the threshold, fails the run.\<close>

lemma log_fails_run:
  assumes "(time, a) \<in> set (dedup_log (trace (ci_config env flags pol) reads
      (start_state None (st_sarif (ci_start flags)) (st_met (ci_start flags)))))"
    and "threshold \<le> rule_floor (a_Rule a)" "5 * length reads < 2 ^ 63"
  shows "ci_exit (st_alertCount (ci_loop (ci_config env flags pol) threshold reads (ci_start flags))) w = 1"
proof -
  let ?as = "ci_alerts (ci_config env flags pol) threshold reads (ci_start flags)"
  have "length ?as < 2 ^ 63" using ci_alerts_length assms(3) by (rule le_less_trans)
  moreover have "list_ex (\<lambda>a. threshold \<le> a_Severity a) ?as"
    using log_raised assms(1,2) unfolding ci_alerts_trace list_ex_iff by (blast intro: order_trans)
  ultimately show ?thesis by (simp add: ci_exit_alerts)
qed

text \<open>
  C4. From the system call to the exit status. Let a watched process make a system call during a run of
  \<open>chainscope ci\<close>, with room in the ring buffer, such that the loader delivers its record before it is
  closed and the clock does not go backwards. If a rule that the system call should raise is never
  less severe than the threshold of the run, the run ends with status 1, whatever the monitored
  command returns, whatever else happens and whatever the deduplicator drops. (The records
  delivered are those of all hooks of the run; those of hooks that fire after the last delivered
  record are left out of it.)
\<close>

theorem gate_sees_system_calls:
  assumes "run reserve_slot as boot = Some k" "tk_room t"
    and "run reserve_slot (as @ Hook t h # as') boot = Some k'"
    and "(rule, sev) \<in> set (act_verdicts pol k t h)"
    and "parseSeverity (flag_get flags ''min-sev'' ''high'') \<le> rule_floor rule"
    and "x_reads env = zip (map RingRecord (k_events k')) envs" "length envs = length (k_events k')"
    and "sorted (map v_now envs)" "5 * length envs < 2 ^ 63"
    and "''--'' \<notin> set fargs" "cmd \<noteq> []" "parse_flags ci_flags [] fargs = FlagsOK flags rest"
    and "x_euid env = 0" "ci_policy env flags = Inr pol" "x_loader_ok env" "x_start_ok env"
  shows "oc_exit (runCI env (fargs @ ''--'' # cmd)) = 1"
proof -
  let ?cfg = "ci_config env flags pol"
  have "(rule, sev) \<in> set (act_verdicts (c_policy ?cfg) k t h)" using assms(4) by (simp add: ci_config_def)
  from call_logged [OF assms(1-3,7,8) this] obtain time a where
    "(time, a) \<in> set (dedup_log (trace ?cfg (x_reads env)
       (start_state None (st_sarif (ci_start flags)) (st_met (ci_start flags)))))" "a_Rule a = rule"
    unfolding assms(6) by blast
  then show ?thesis
    using assms(5,7,9) unfolding runCI_started [OF assms(10-16)]
    by (simp add: Let_def log_fails_run assms(6))
qed

text \<open>A \<open>make\<close> that loads a BPF program and succeeds, under the default threshold.\<close>

theorem gate_sees_system_calls_witness:
  "\<exists>k'. run reserve_slot [Seed 4242 ''make'', Hook (test_task 4242 1 []) (SysEnterBpf (\<lambda>_. 5))] boot = Some k' \<and>
     oc_exit (runCI (test_env (zip (map RingRecord (k_events k')) [at_time 0]) WaitOK) [''--'', ''make'']) = 1"
proof -
  let ?t = "test_task 4242 1 []" and ?h = "SysEnterBpf (\<lambda>_. 5)"
  obtain k k' where k: "run reserve_slot [Seed 4242 ''make''] boot = Some k"
    "run reserve_slot ([Seed 4242 ''make''] @ Hook ?t ?h # []) boot = Some k'"
    "length (k_events k') = 1" "(''bpf-prog-load'', SevCritical) \<in> set (act_verdicts None k ?t ?h)"
    using seeded_load [where pid = 4242 and comm = "''make''" and pol = None] by metis
  let ?env = "test_env (zip (map RingRecord (k_events k')) [at_time 0]) WaitOK"
  have "oc_exit (runCI ?env ([] @ ''--'' # [''make''])) = 1"
    by (rule gate_sees_system_calls [where envs = "[at_time 0]" and flags = "[]" and rest = "[]" and pol = None,
        OF k(1) _ k(2) k(4)])
      (simp_all add: test_task_def test_env_def k(3) ci_policy_def flag_get_def parseSeverity_def rule_floors)
  with k(2) show ?thesis by auto
qed

end
